theory Spec2Isabelle
  imports Complex_Main "HOL-Library.Word"
begin

section \<open>Store model for \<open>ObjectLifetimeManagement.cpp\<close>\<close>

text \<open>
  The program is one class \<open>A\<close> that owns a heap array of \<open>int\<close> through a raw pointer.
  Its behaviour depends on object identity (\<open>this != &other\<close>), on which instance points
  to which array, and on what \<open>new\<close> and \<open>delete[]\<close> do, so the model is an explicit
  store: live instances of \<open>A\<close> at their addresses, live arrays at theirs, the amount of
  free store that \<open>new\<close> can still hand out, and the lines written to \<open>std::cout\<close>.
\<close>

type_synonym int32 = "32 word"   \<comment> \<open>C++ \<open>int\<close>\<close>
type_synonym addr = nat          \<comment> \<open>address of an \<open>int[]\<close> block; \<open>nullptr\<close> is \<open>None\<close>\<close>
type_synonym ref = nat           \<comment> \<open>address of an instance of \<open>A\<close>\<close>
type_synonym cell = "int32 option"  \<comment> \<open>an \<open>int\<close> in memory; \<open>None\<close> is an indeterminate value\<close>

text \<open>
  \<open>class A { int* data = nullptr; int size = 0; ... }\<close>. The member \<open>size\<close> is \<open>size_A\<close>
  here and a parameter or local of that name \<open>sz\<close>, \<open>size\<close> being a constant of HOL.
\<close>

record A =
  data :: "addr option"
  size_A :: int32

record state =
  objs :: "ref \<rightharpoonup> A"
  heap :: "addr \<rightharpoonup> cell list"
  next_addr :: addr
  avail :: nat
  out :: "string list"

text \<open>
  \<open>OutOfMemory\<close> is \<open>std::bad_alloc\<close>. \<open>Undefined\<close> marks executions the C++ standard
  gives no meaning to: a member access through an address that holds no live instance,
  \<open>delete[]\<close> or a read through a dangling pointer, an out-of-bounds write, a
  floating-point value whose truncation does not fit \<open>int\<close>. Both carry the state reached
  when the execution stopped.
\<close>

datatype error = OutOfMemory | Undefined

type_synonym 'a result = "(error \<times> state) + ('a \<times> state)"

subsection \<open>Primitives\<close>

text \<open>\<open>std::cout << line << std::endl\<close>\<close>

definition cout :: "string \<Rightarrow> state \<Rightarrow> state" where
  "cout line s = s\<lparr>out := out s @ [line]\<rparr>"

text \<open>
  \<open>new int[n]\<close>, only ever reached with \<open>n > 0\<close>: a fresh block of \<open>n\<close> indeterminate
  cells, or \<open>None\<close> for \<open>std::bad_alloc\<close> when the free store cannot supply \<open>n\<close> cells.
\<close>

definition new_array :: "int32 \<Rightarrow> state \<Rightarrow> (addr \<times> state) option" where
  "new_array n s =
     (if unat n \<le> avail s
      then Some (next_addr s,
                 s\<lparr>heap := (heap s)(next_addr s \<mapsto> replicate (unat n) None),
                   next_addr := Suc (next_addr s),
                   avail := avail s - unat n\<rparr>)
      else None)"

text \<open>\<open>delete[] p\<close>: nothing for \<open>nullptr\<close>; \<open>None\<close> (undefined) for a pointer to no live block.\<close>

definition delete_array :: "addr option \<Rightarrow> state \<Rightarrow> state option" where
  "delete_array p s =
     (case p of
        None \<Rightarrow> Some s
      | Some a \<Rightarrow>
          (case heap s a of
             None \<Rightarrow> None
           | Some cs \<Rightarrow> Some (s\<lparr>heap := (heap s)(a := None), avail := avail s + length cs\<rparr>)))"

text \<open>\<open>this->data[i] = v\<close>; \<open>None\<close> (undefined) without a live instance, block or cell there.\<close>

definition store_elem :: "ref \<Rightarrow> int32 \<Rightarrow> int32 \<Rightarrow> state \<Rightarrow> state option" where
  "store_elem this i v s =
     (case objs s this of
        None \<Rightarrow> None
      | Some obj \<Rightarrow>
          (case data obj of
             None \<Rightarrow> None
           | Some a \<Rightarrow>
               (case heap s a of
                  None \<Rightarrow> None
                | Some cs \<Rightarrow>
                    if 0 \<le> sint i \<and> nat (sint i) < length cs
                    then Some (s\<lparr>heap := (heap s)(a \<mapsto> cs[nat (sint i) := Some v])\<rparr>)
                    else None)))"

text \<open>
  \<open>std::memcpy(dst, src, n * sizeof(int))\<close>: the first \<open>n\<close> cells of the source block
  overwrite the first \<open>n\<close> cells of the destination block; \<open>None\<close> (undefined) for a null
  or dangling pointer, a block shorter than \<open>n\<close>, or overlapping blocks.
\<close>

definition memcpy :: "addr option \<Rightarrow> addr option \<Rightarrow> nat \<Rightarrow> state \<Rightarrow> state option" where
  "memcpy dst src n s =
     (case (dst, src) of
        (Some d, Some a) \<Rightarrow>
          (case (heap s d, heap s a) of
             (Some dc, Some sc) \<Rightarrow>
               if n \<le> length dc \<and> n \<le> length sc \<and> d \<noteq> a
               then Some (s\<lparr>heap := (heap s)(d \<mapsto> take n sc @ drop n dc)\<rparr>)
               else None
           | _ \<Rightarrow> None)
      | _ \<Rightarrow> None)"

text \<open>
  \<open>static_cast<int>(d)\<close>: the fractional part is discarded (truncation toward zero); the
  conversion is undefined when the truncated value is not representable in \<open>int\<close>.
\<close>

definition truncate_d :: "real \<Rightarrow> int" where
  "truncate_d d = (if 0 \<le> d then \<lfloor>d\<rfloor> else \<lceil>d\<rceil>)"

definition static_cast_int :: "real \<Rightarrow> int32 option" where
  "static_cast_int d =
     (if - (2 ^ 31) \<le> truncate_d d \<and> truncate_d d < 2 ^ 31
      then Some (word_of_int (truncate_d d))
      else None)"

text \<open>A constructor that exits by an exception leaves no instance behind.\<close>

definition abandon :: "ref \<Rightarrow> state \<Rightarrow> state" where
  "abandon this s = s\<lparr>objs := (objs s)(this := None)\<rparr>"

text \<open>Assignment to the member \<open>data\<close> of the instance under construction.\<close>

definition set_data :: "ref \<Rightarrow> addr option \<Rightarrow> state \<Rightarrow> state" where
  "set_data this p s =
     (case objs s this of
        None \<Rightarrow> s
      | Some obj \<Rightarrow> s\<lparr>objs := (objs s)(this \<mapsto> obj\<lparr>data := p\<rparr>)\<rparr>)"

subsection \<open>The zero-filling loop\<close>

text \<open>\<open>for (int i = 0; i < size; ++i) { data[i] = 0; }\<close>, entered at \<open>i\<close>.\<close>

function zero_loop :: "ref \<Rightarrow> int32 \<Rightarrow> int32 \<Rightarrow> state \<Rightarrow> state option" where
  "zero_loop this sz i s =
     (if i <s sz
      then (case store_elem this i 0 s of
              None \<Rightarrow> None
            | Some s' \<Rightarrow> zero_loop this sz (i + 1) s')
      else Some s)"
  by pat_completeness auto

text \<open>
  \<open>++i\<close> cannot overflow below \<open>sz\<close>, so the signed distance to \<open>sz\<close> shrinks with each
  round.
\<close>

termination zero_loop
proof (relation "measure (\<lambda>(this, sz, i, s). nat (sint sz - sint i))")
  show "wf (measure (\<lambda>(this, sz, i, s). nat (sint sz - sint i)))"
    by simp
next
  fix this :: ref and sz i :: int32 and s x2 :: state
  assume less: "i <s sz"
  have below: "sint i < sint sz"
    using less by (simp add: word_sless_alt)
  have top: "sint sz < 2 ^ 31"
    using sint_lt [of sz] by simp
  have bottom: "- (2 ^ 31) \<le> sint i"
    using sint_ge [of i] by simp
  have "signed_take_bit 31 (sint i + 1) = sint i + 1"
    using below top bottom by (intro signed_take_bit_int_eq_self) auto
  then have "sint (i + 1) = sint i + 1"
    by (simp add: sint_word_add)
  then show "((this, sz, i + 1, x2), (this, sz, i, s))
             \<in> measure (\<lambda>(this, sz, i, s). nat (sint sz - sint i))"
    using below by simp
qed

subsection \<open>The operations of class \<open>A\<close>\<close>

text \<open>
  Every member function takes the address \<open>this\<close> of its instance first, as the compiled
  code does. A constructor is handed storage that holds no live instance yet and makes one
  there; the members it does not name in its initializer list start from their default
  member initializers \<open>data = nullptr\<close>, \<open>size = 0\<close>.
\<close>

text \<open>\<open>A::A() : data(nullptr), size(0)\<close>\<close>

definition A_default :: "ref \<Rightarrow> state \<Rightarrow> unit result" where
  "A_default this s =
     (let s1 = s\<lparr>objs := (objs s)(this \<mapsto> \<lparr>data = None, size_A = 0\<rparr>)\<rparr>;
          s2 = cout ''Default constructor'' s1
      in Inr ((), s2))"

text \<open>\<open>A::A(int size) : size(size)\<close>\<close>

definition A_int :: "ref \<Rightarrow> int32 \<Rightarrow> state \<Rightarrow> unit result" where
  "A_int this sz s =
     (let s1 = s\<lparr>objs := (objs s)(this \<mapsto> \<lparr>data = None, size_A = sz\<rparr>)\<rparr>;
          s2 = cout ''Parameterized constructor'' s1
      in if 0 <s sz
         then (case new_array sz s2 of
                 None \<Rightarrow> Inl (OutOfMemory, abandon this s2)
               | Some (p, s3) \<Rightarrow>
                   let s4 = set_data this (Some p) s3
                   in (case zero_loop this sz 0 s4 of
                         None \<Rightarrow> Inl (Undefined, s4)
                       | Some s5 \<Rightarrow> Inr ((), s5)))
         else Inr ((), set_data this None s2))"

text \<open>\<open>A::~A()\<close>; the lifetime of the instance ends.\<close>

definition A_dtor :: "ref \<Rightarrow> state \<Rightarrow> unit result" where
  "A_dtor this s =
     (let s1 = cout ''Destructor'' s
      in case objs s1 this of
           None \<Rightarrow> Inl (Undefined, s1)
         | Some obj \<Rightarrow>
             (case delete_array (data obj) s1 of
                None \<Rightarrow> Inl (Undefined, s1)
              | Some s2 \<Rightarrow> Inr ((), s2\<lparr>objs := (objs s2)(this := None)\<rparr>)))"

text \<open>\<open>A::A(double d) : size(static_cast<int>(d))\<close>\<close>

definition A_double :: "ref \<Rightarrow> real \<Rightarrow> state \<Rightarrow> unit result" where
  "A_double this d s =
     (case static_cast_int d of
        None \<Rightarrow> Inl (Undefined, s)
      | Some sz \<Rightarrow>
          let s1 = s\<lparr>objs := (objs s)(this \<mapsto> \<lparr>data = None, size_A = sz\<rparr>)\<rparr>;
              s2 = cout ''conversion constructor (double to A)'' s1
          in if 0 <s sz
             then (case new_array sz s2 of
                     None \<Rightarrow> Inl (OutOfMemory, abandon this s2)
                   | Some (p, s3) \<Rightarrow>
                       let s4 = set_data this (Some p) s3
                       in (case zero_loop this sz 0 s4 of
                             None \<Rightarrow> Inl (Undefined, s4)
                           | Some s5 \<Rightarrow> Inr ((), s5)))
             else Inr ((), set_data this None s2))"

text \<open>\<open>A::operator int() const\<close>\<close>

definition operator_int :: "ref \<Rightarrow> state \<Rightarrow> int32 result" where
  "operator_int this s =
     (let s1 = cout ''Conversion operator (A to int)'' s
      in case objs s1 this of
           None \<Rightarrow> Inl (Undefined, s1)
         | Some obj \<Rightarrow> Inr (size_A obj, s1))"

text \<open>\<open>A::A(const A& other) : size(other.size)\<close>\<close>

definition A_copy :: "ref \<Rightarrow> ref \<Rightarrow> state \<Rightarrow> unit result" where
  "A_copy this other s =
     (case objs s other of
        None \<Rightarrow> Inl (Undefined, s)
      | Some ob \<Rightarrow>
          let sz = size_A ob;
              s1 = s\<lparr>objs := (objs s)(this \<mapsto> \<lparr>data = None, size_A = sz\<rparr>)\<rparr>;
              s2 = cout ''Copy constructor'' s1
          in if 0 <s sz
             then (case new_array sz s2 of
                     None \<Rightarrow> Inl (OutOfMemory, abandon this s2)
                   | Some (p, s3) \<Rightarrow>
                       let s4 = set_data this (Some p) s3
                       in (case memcpy (Some p) (data ob) (unat sz) s4 of
                             None \<Rightarrow> Inl (Undefined, s4)
                           | Some s5 \<Rightarrow> Inr ((), s5)))
             else Inr ((), set_data this None s2))"

text \<open>
  \<open>A::A(A&& other)\<close>: no initializer list, so the new instance starts as
  \<open>data = nullptr\<close>, \<open>size = 0\<close>; the body then exchanges the members of the two instances
  through \<open>tmp_size\<close> and \<open>tmp_data\<close>.
\<close>

definition A_move :: "ref \<Rightarrow> ref \<Rightarrow> state \<Rightarrow> unit result" where
  "A_move this other s =
     (let s1 = s\<lparr>objs := (objs s)(this \<mapsto> \<lparr>data = None, size_A = 0\<rparr>)\<rparr>;
          s2 = cout ''Move constructor'' s1
      in case (objs s2 this, objs s2 other) of
           (Some t, Some ob) \<Rightarrow>
             let tmp_size = size_A t;
                 tmp_data = data t;
                 t' = t\<lparr>size_A := size_A ob, data := data ob\<rparr>;
                 s3 = s2\<lparr>objs := (objs s2)(this \<mapsto> t')\<rparr>;
                 s4 = s3\<lparr>objs := (objs s3)(other \<mapsto> ob\<lparr>size_A := tmp_size, data := tmp_data\<rparr>)\<rparr>
             in Inr ((), s4)
         | _ \<Rightarrow> Inl (Undefined, s2))"

text \<open>\<open>A& A::operator=(const A& other)\<close>; the result is the address of \<open>*this\<close>.\<close>

definition copy_assign :: "ref \<Rightarrow> ref \<Rightarrow> state \<Rightarrow> ref result" where
  "copy_assign this other s =
     (let s1 = cout ''Copy assignment operator'' s
      in if this \<noteq> other
         then (case (objs s1 this, objs s1 other) of
                 (Some t, Some ob) \<Rightarrow>
                   (case delete_array (data t) s1 of
                      None \<Rightarrow> Inl (Undefined, s1)
                    | Some s2 \<Rightarrow>
                        let sz = size_A ob;
                            s3 = s2\<lparr>objs := (objs s2)(this \<mapsto> t\<lparr>size_A := sz\<rparr>)\<rparr>
                        in if 0 <s sz
                           then (case new_array sz s3 of
                                   None \<Rightarrow> Inl (OutOfMemory, s3)
                                 | Some (p, s4) \<Rightarrow>
                                     let s5 = set_data this (Some p) s4
                                     in (case memcpy (Some p) (data ob) (unat sz) s5 of
                                           None \<Rightarrow> Inl (Undefined, s5)
                                         | Some s6 \<Rightarrow> Inr (this, s6)))
                           else Inr (this, set_data this None s3))
               | _ \<Rightarrow> Inl (Undefined, s1))
         else Inr (this, s1))"

text \<open>\<open>A& A::operator=(A&& other)\<close>; the result is the address of \<open>*this\<close>.\<close>

definition move_assign :: "ref \<Rightarrow> ref \<Rightarrow> state \<Rightarrow> ref result" where
  "move_assign this other s =
     (let s1 = cout ''Move copy assignment operator'' s
      in if this = other
         then Inr (this, s1)
         else (case (objs s1 this, objs s1 other) of
                 (Some t, Some ob) \<Rightarrow>
                   let tmp_size = size_A t;
                       tmp_data = data t;
                       t' = t\<lparr>size_A := size_A ob, data := data ob\<rparr>;
                       s2 = s1\<lparr>objs := (objs s1)(this \<mapsto> t')\<rparr>;
                       s3 = s2\<lparr>objs := (objs s2)(other \<mapsto> ob\<lparr>size_A := tmp_size, data := tmp_data\<rparr>)\<rparr>
                   in Inr (this, s3)
               | _ \<Rightarrow> Inl (Undefined, s1)))"

subsection \<open>Calls\<close>

text \<open>
  One constructor per member function, as \<open>main\<close> calls them; \<open>exec\<close> runs a call and
  keeps the outcome and the state, dropping the returned value.
\<close>

datatype call =
    DefaultCtor ref
  | IntCtor ref int32
  | Dtor ref
  | DoubleCtor ref real
  | ConvInt ref
  | CopyCtor ref ref
  | MoveCtor ref ref
  | CopyAssign ref ref
  | MoveAssign ref ref

fun exec :: "call \<Rightarrow> state \<Rightarrow> (error \<times> state) + state" where
  "exec (DefaultCtor this) s = map_sum id snd (A_default this s)"
| "exec (IntCtor this n) s = map_sum id snd (A_int this n s)"
| "exec (Dtor this) s = map_sum id snd (A_dtor this s)"
| "exec (DoubleCtor this d) s = map_sum id snd (A_double this d s)"
| "exec (ConvInt this) s = map_sum id snd (operator_int this s)"
| "exec (CopyCtor this other) s = map_sum id snd (A_copy this other s)"
| "exec (MoveCtor this other) s = map_sum id snd (A_move this other s)"
| "exec (CopyAssign this other) s = map_sum id snd (copy_assign this other s)"
| "exec (MoveAssign this other) s = map_sum id snd (move_assign this other s)"

text \<open>
  What the language guarantees at a call: a constructor runs on storage that holds no
  live instance, every other member function on a live one, reference arguments are bound
  to live instances, and a \<open>double\<close> argument is one that \<open>static_cast<int>\<close> is defined on.
\<close>

fun callable :: "call \<Rightarrow> state \<Rightarrow> bool" where
  "callable (DefaultCtor this) s = (objs s this = None)"
| "callable (IntCtor this n) s = (objs s this = None)"
| "callable (Dtor this) s = (objs s this \<noteq> None)"
| "callable (DoubleCtor this d) s = (objs s this = None \<and> static_cast_int d \<noteq> None)"
| "callable (ConvInt this) s = (objs s this \<noteq> None)"
| "callable (CopyCtor this other) s = (objs s this = None \<and> objs s other \<noteq> None)"
| "callable (MoveCtor this other) s = (objs s this = None \<and> objs s other \<noteq> None)"
| "callable (CopyAssign this other) s = (objs s this \<noteq> None \<and> objs s other \<noteq> None)"
| "callable (MoveAssign this other) s = (objs s this \<noteq> None \<and> objs s other \<noteq> None)"

text \<open>The member functions whose body contains a \<open>new int[size]\<close>.\<close>

fun allocates :: "call \<Rightarrow> bool" where
  "allocates (IntCtor this n) = True"
| "allocates (DoubleCtor this d) = True"
| "allocates (CopyCtor this other) = True"
| "allocates (CopyAssign this other) = True"
| "allocates c = False"

subsection \<open>Observations and invariants\<close>

text \<open>The length an instance reports, and the cells of the array it points to.\<close>

definition length_of :: "state \<Rightarrow> ref \<Rightarrow> int32 option" where
  "length_of s r = map_option size_A (objs s r)"

definition storage :: "state \<Rightarrow> A \<Rightarrow> cell list option" where
  "storage s obj = (case data obj of None \<Rightarrow> Some [] | Some a \<Rightarrow> heap s a)"

definition elements_of :: "state \<Rightarrow> ref \<Rightarrow> cell list option" where
  "elements_of s r = (case objs s r of None \<Rightarrow> None | Some obj \<Rightarrow> storage s obj)"

text \<open>The empty state of an instance: no storage, length 0.\<close>

definition empty_A :: A where
  "empty_A = \<lparr>data = None, size_A = 0\<rparr>"

text \<open>
  The invariant as the specification words it: the length is non-negative, there is
  storage exactly when the length is positive, and the storage has exactly \<open>length\<close>
  cells.
\<close>

definition buffer_inv :: "state \<Rightarrow> A \<Rightarrow> bool" where
  "buffer_inv s obj =
     (0 \<le>s size_A obj \<and>
      (data obj \<noteq> None \<longleftrightarrow> 0 <s size_A obj) \<and>
      (case storage s obj of
         None \<Rightarrow> False
       | Some cs \<Rightarrow> int (length cs) = sint (size_A obj)))"

text \<open>
  The invariant the code keeps: the same without the sign condition, the storage having
  \<open>length\<close> cells when the length is positive and none otherwise.
\<close>

definition obj_inv :: "state \<Rightarrow> A \<Rightarrow> bool" where
  "obj_inv s obj =
     ((data obj \<noteq> None \<longleftrightarrow> 0 <s size_A obj) \<and>
      (case storage s obj of
         None \<Rightarrow> False
       | Some cs \<Rightarrow> int (length cs) = max 0 (sint (size_A obj))))"

text \<open>
  A well-formed store: every live instance satisfies \<open>obj_inv\<close>, no two live instances
  point to the same array, and \<open>new\<close> has never handed out an address at or above
  \<open>next_addr\<close>.
\<close>

definition wf_state :: "state \<Rightarrow> bool" where
  "wf_state s =
     ((\<forall>r obj. objs s r = Some obj \<longrightarrow> obj_inv s obj) \<and>
      (\<forall>r1 r2 o1 o2. objs s r1 = Some o1 \<and> objs s r2 = Some o2 \<and> r1 \<noteq> r2 \<and> data o1 \<noteq> None
          \<longrightarrow> data o1 \<noteq> data o2) \<and>
      (\<forall>a. heap s a \<noteq> None \<longrightarrow> a < next_addr s))"

text \<open>The store before \<open>main\<close> runs, with \<open>m\<close> cells of free store.\<close>

definition init_state :: "nat \<Rightarrow> state" where
  "init_state m = \<lparr>objs = Map.empty, heap = Map.empty, next_addr = 0, avail = m, out = []\<rparr>"

text \<open>The state an execution ends in, and the value it returned, if it returned.\<close>

definition post :: "'a result \<Rightarrow> state" where
  "post r = (case r of Inl (e, s) \<Rightarrow> s | Inr (v, s) \<Rightarrow> s)"

definition returned :: "'a result \<Rightarrow> 'a option" where
  "returned r = (case r of Inl (e, s) \<Rightarrow> None | Inr (v, s) \<Rightarrow> Some v)"

text \<open>An outcome with the diagnostic trace on \<open>std::cout\<close> left out.\<close>

definition without_trace :: "'a result \<Rightarrow> 'a result" where
  "without_trace r = map_sum (apsnd (\<lambda>s. s\<lparr>out := []\<rparr>)) (apsnd (\<lambda>s. s\<lparr>out := []\<rparr>)) r"

subsection \<open>Two stores built by the constructors\<close>

text \<open>
  \<open>A a(3);\<close> at address 0 with 8 cells of free store, and the same followed by \<open>A b;\<close>
  at address 1.
\<close>

definition one_buffer :: state where
  "one_buffer = post (A_int 0 3 (init_state 8))"

definition two_buffers :: state where
  "two_buffers = post (A_default 1 one_buffer)"

text \<open>
  \<open>A a(5); A b(2); b = a;\<close> at addresses 0 and 1 with 8 cells of free store: the copy
  assignment releases the 2 cells of \<open>b\<close> and then asks for 5 where 3 are free.
\<close>

definition before_failed_assign :: state where
  "before_failed_assign = post (A_int 1 2 (post (A_int 0 5 (init_state 8))))"

definition after_failed_assign :: state where
  "after_failed_assign = post (copy_assign 1 0 before_failed_assign)"

section \<open>Facts about the primitives\<close>

declare zero_loop.simps [simp del]

lemma sint_succ:
  fixes i sz :: int32
  assumes "i <s sz"
  shows "sint (i + 1) = sint i + 1"
proof -
  have "sint i < sint sz"
    using assms by (simp add: word_sless_alt)
  moreover have "sint sz < 2 ^ 31"
    using sint_lt [of sz] by simp
  moreover have "- (2 ^ 31) \<le> sint i"
    using sint_ge [of i] by simp
  ultimately have "signed_take_bit 31 (sint i + 1) = sint i + 1"
    by (intro signed_take_bit_int_eq_self) auto
  then show ?thesis
    by (simp add: sint_word_add)
qed

lemma nonneg_sint_unat:
  fixes n :: int32
  assumes "0 \<le> sint n"
  shows "int (unat n) = sint n"
proof -
  have "sint n < 2 ^ 32"
    using sint_lt [of n] by simp
  then have "take_bit 32 (sint n) = sint n"
    using assms by (intro take_bit_int_eq_self) auto
  then have "uint n = sint n"
    using uint_sint [of n] by simp
  then show ?thesis
    by simp
qed

text \<open>
  Entered at \<open>i\<close> on a block of \<open>sz\<close> cells, the loop keeps the cells below \<open>i\<close> and
  leaves 0 in all the others.
\<close>

lemma zero_loop_fills:
  assumes "objs s this = Some obj" and "data obj = Some a" and "heap s a = Some cs"
    and "int (length cs) = sint sz" and "0 \<le> sint i" and "sint i \<le> sint sz"
  shows "zero_loop this sz i s =
         Some (s\<lparr>heap := (heap s)(a \<mapsto> take (nat (sint i)) cs @
                                     replicate (nat (sint sz - sint i)) (Some 0))\<rparr>)"
  using assms
proof (induction this sz i s arbitrary: cs rule: zero_loop.induct)
  case (1 this sz i s)
  show ?case
  proof (cases "i <s sz")
    case True
    define k where "k = nat (sint i)"
    define s' where "s' = s\<lparr>heap := (heap s)(a \<mapsto> cs[k := Some 0])\<rparr>"
    have lt: "sint i < sint sz"
      using True by (simp add: word_sless_alt)
    have k: "k < length cs"
      using lt "1.prems" by (simp add: k_def)
    have st: "store_elem this i 0 s = Some s'"
      using "1.prems" k by (simp add: store_elem_def s'_def k_def)
    have next_i: "sint (i + 1) = sint i + 1"
      by (rule sint_succ [OF True])
    have ih: "zero_loop this sz (i + 1) s' =
          Some (s'\<lparr>heap := (heap s')(a \<mapsto> take (nat (sint (i + 1))) (cs[k := Some 0]) @
                                     replicate (nat (sint sz - sint (i + 1))) (Some 0))\<rparr>)"
      using "1.prems" lt next_i
      by (intro "1.IH" [OF True st]) (simp_all add: s'_def)
    have tk: "take (Suc k) (cs[k := Some 0]) = take k cs @ [Some 0]"
      using k by (simp add: take_Suc_conv_app_nth)
    have nk: "nat (sint (i + 1)) = Suc k"
      using "1.prems" next_i by (simp add: k_def)
    have rp: "nat (sint sz - sint i) = Suc (nat (sint sz - sint (i + 1)))"
      using lt next_i by simp
    have "zero_loop this sz i s = zero_loop this sz (i + 1) s'"
      using True st by (simp add: zero_loop.simps [of this sz i])
    also have "\<dots> = Some (s\<lparr>heap := (heap s)(a \<mapsto> take (nat (sint i)) cs @
                                     replicate (nat (sint sz - sint i)) (Some 0))\<rparr>)"
      unfolding ih nk tk rp by (simp add: s'_def k_def replicate_app_Cons_same)
    finally show ?thesis .
  next
    case False
    then have eq: "sint i = sint sz"
      using "1.prems" by (simp add: word_sless_alt)
    have "(heap s)(a \<mapsto> cs) = heap s"
      using "1.prems" by (simp add: fun_upd_idem)
    then show ?thesis
      using False "1.prems" eq by (simp add: zero_loop.simps [of this sz i])
  qed
qed

text \<open>
  The body shared by the \<open>int\<close> and the \<open>double\<close> constructor, \<open>l\<close> being the line it
  prints: its three outcomes.
\<close>

lemma ctor_body_pos:
  assumes "0 <s sz" and "unat sz \<le> avail s"
  shows "(let s1 = s\<lparr>objs := (objs s)(this \<mapsto> \<lparr>data = None, size_A = sz\<rparr>)\<rparr>;
          s2 = cout l s1
      in if 0 <s sz
         then (case new_array sz s2 of
                 None \<Rightarrow> Inl (OutOfMemory, abandon this s2)
               | Some (p, s3) \<Rightarrow>
                   let s4 = set_data this (Some p) s3
                   in (case zero_loop this sz 0 s4 of
                         None \<Rightarrow> Inl (Undefined, s4)
                       | Some s5 \<Rightarrow> Inr ((), s5)))
         else Inr ((), set_data this None s2)) =
     Inr ((), s\<lparr>objs := (objs s)(this \<mapsto> \<lparr>data = Some (next_addr s), size_A = sz\<rparr>),
                 heap := (heap s)(next_addr s \<mapsto> replicate (unat sz) (Some 0)),
                 next_addr := Suc (next_addr s),
                 avail := avail s - unat sz,
                 out := out s @ [l]\<rparr>)"
proof -
  have pos: "0 < sint sz"
    using assms(1) by (simp add: word_sless_alt)
  have len: "int (unat sz) = sint sz"
    using pos by (intro nonneg_sint_unat) simp
  then have len': "nat (sint sz) = unat sz"
    by linarith
  define s2 where "s2 = cout l (s\<lparr>objs := (objs s)(this \<mapsto> \<lparr>data = None, size_A = sz\<rparr>)\<rparr>)"
  define s3 where "s3 = s2\<lparr>heap := (heap s2)(next_addr s2 \<mapsto> replicate (unat sz) None),
                          next_addr := Suc (next_addr s2),
                          avail := avail s2 - unat sz\<rparr>"
  define s4 where "s4 = set_data this (Some (next_addr s)) s3"
  have alloc: "new_array sz s2 = Some (next_addr s, s3)"
    using assms(2) by (simp add: new_array_def s3_def s2_def cout_def)
  have obj4: "objs s4 this = Some \<lparr>data = Some (next_addr s), size_A = sz\<rparr>"
    and heap4: "heap s4 = (heap s)(next_addr s \<mapsto> replicate (unat sz) None)"
    by (simp_all add: s4_def set_data_def s3_def s2_def cout_def)
  have "zero_loop this sz 0 s4 =
         Some (s4\<lparr>heap := (heap s4)(next_addr s \<mapsto> take (nat (sint (0::int32))) (replicate (unat sz) None) @
                                     replicate (nat (sint sz - sint (0::int32))) (Some 0))\<rparr>)"
    using pos len obj4
    by (intro zero_loop_fills [where obj = "\<lparr>data = Some (next_addr s), size_A = sz\<rparr>"])
       (simp_all add: heap4)
  then have loop: "zero_loop this sz 0 s4 =
         Some (s4\<lparr>heap := (heap s)(next_addr s \<mapsto> replicate (unat sz) (Some 0))\<rparr>)"
    using len' by (simp add: heap4)
  have final: "s4\<lparr>heap := (heap s)(next_addr s \<mapsto> replicate (unat sz) (Some 0))\<rparr> =
      s\<lparr>objs := (objs s)(this \<mapsto> \<lparr>data = Some (next_addr s), size_A = sz\<rparr>),
                 heap := (heap s)(next_addr s \<mapsto> replicate (unat sz) (Some 0)),
                 next_addr := Suc (next_addr s),
                 avail := avail s - unat sz,
                 out := out s @ [l]\<rparr>"
    by (simp add: s4_def set_data_def s3_def s2_def cout_def)
  show ?thesis
    using assms(1) unfolding Let_def s2_def [symmetric]
    by (simp add: alloc s4_def [symmetric] loop final)
qed

lemma ctor_body_oom:
  assumes "0 <s sz" and "\<not> unat sz \<le> avail s"
  shows "(let s1 = s\<lparr>objs := (objs s)(this \<mapsto> \<lparr>data = None, size_A = sz\<rparr>)\<rparr>;
          s2 = cout l s1
      in if 0 <s sz
         then (case new_array sz s2 of
                 None \<Rightarrow> Inl (OutOfMemory, abandon this s2)
               | Some (p, s3) \<Rightarrow>
                   let s4 = set_data this (Some p) s3
                   in (case zero_loop this sz 0 s4 of
                         None \<Rightarrow> Inl (Undefined, s4)
                       | Some s5 \<Rightarrow> Inr ((), s5)))
         else Inr ((), set_data this None s2)) =
     Inl (OutOfMemory, s\<lparr>objs := (objs s)(this := None), out := out s @ [l]\<rparr>)"
  using assms by (simp add: cout_def new_array_def abandon_def)

lemma ctor_body_nonpos:
  assumes "\<not> 0 <s sz"
  shows "(let s1 = s\<lparr>objs := (objs s)(this \<mapsto> \<lparr>data = None, size_A = sz\<rparr>)\<rparr>;
          s2 = cout l s1
      in if 0 <s sz
         then (case new_array sz s2 of
                 None \<Rightarrow> Inl (OutOfMemory, abandon this s2)
               | Some (p, s3) \<Rightarrow>
                   let s4 = set_data this (Some p) s3
                   in (case zero_loop this sz 0 s4 of
                         None \<Rightarrow> Inl (Undefined, s4)
                       | Some s5 \<Rightarrow> Inr ((), s5)))
         else Inr ((), set_data this None s2)) =
     Inr ((), s\<lparr>objs := (objs s)(this \<mapsto> \<lparr>data = None, size_A = sz\<rparr>), out := out s @ [l]\<rparr>)"
  using assms by (simp add: cout_def set_data_def)

lemmas A_int_pos = ctor_body_pos [where l = "''Parameterized constructor''", folded A_int_def]
lemmas A_int_oom = ctor_body_oom [where l = "''Parameterized constructor''", folded A_int_def]
lemmas A_int_nonpos = ctor_body_nonpos [where l = "''Parameterized constructor''", folded A_int_def]

lemma A_double_pos:
  assumes "static_cast_int d = Some sz" and "0 <s sz" and "unat sz \<le> avail s"
  shows "A_double this d s =
     Inr ((), s\<lparr>objs := (objs s)(this \<mapsto> \<lparr>data = Some (next_addr s), size_A = sz\<rparr>),
                 heap := (heap s)(next_addr s \<mapsto> replicate (unat sz) (Some 0)),
                 next_addr := Suc (next_addr s),
                 avail := avail s - unat sz,
                 out := out s @ [''conversion constructor (double to A)'']\<rparr>)"
  by (simp only: A_double_def assms(1) option.case ctor_body_pos [OF assms(2,3)])

lemma A_double_oom:
  assumes "static_cast_int d = Some sz" and "0 <s sz" and "\<not> unat sz \<le> avail s"
  shows "A_double this d s =
     Inl (OutOfMemory, s\<lparr>objs := (objs s)(this := None),
                          out := out s @ [''conversion constructor (double to A)'']\<rparr>)"
  by (simp only: A_double_def assms(1) option.case ctor_body_oom [OF assms(2,3)])

lemma A_double_nonpos:
  assumes "static_cast_int d = Some sz" and "\<not> 0 <s sz"
  shows "A_double this d s =
     Inr ((), s\<lparr>objs := (objs s)(this \<mapsto> \<lparr>data = None, size_A = sz\<rparr>),
                 out := out s @ [''conversion constructor (double to A)'']\<rparr>)"
  by (simp only: A_double_def assms(1) option.case ctor_body_nonpos [OF assms(2)])

section \<open>Well-formed stores\<close>

lemma wf_stateI:
  assumes "\<And>r obj. objs s r = Some obj \<Longrightarrow> obj_inv s obj"
    and "\<And>r1 r2 o1 o2 a. objs s r1 = Some o1 \<Longrightarrow> objs s r2 = Some o2 \<Longrightarrow> r1 \<noteq> r2 \<Longrightarrow>
           data o1 = Some a \<Longrightarrow> data o2 \<noteq> Some a"
    and "\<And>a cs. heap s a = Some cs \<Longrightarrow> a < next_addr s"
  shows "wf_state s"
  unfolding wf_state_def
proof (intro conjI allI impI)
  fix r obj assume "objs s r = Some obj"
  then show "obj_inv s obj" by (rule assms(1))
next
  fix r1 r2 o1 o2
  assume h: "objs s r1 = Some o1 \<and> objs s r2 = Some o2 \<and> r1 \<noteq> r2 \<and> data o1 \<noteq> None"
  then obtain a where "data o1 = Some a" by auto
  then show "data o1 \<noteq> data o2"
    using assms(2) [of r1 o1 r2 o2 a] h by auto
next
  fix a assume "heap s a \<noteq> None"
  then show "a < next_addr s" using assms(3) by auto
qed

lemma wf_obj: "wf_state s \<Longrightarrow> objs s r = Some obj \<Longrightarrow> obj_inv s obj"
  by (simp add: wf_state_def)

lemma wf_excl:
  "wf_state s \<Longrightarrow> objs s r1 = Some o1 \<Longrightarrow> objs s r2 = Some o2 \<Longrightarrow> r1 \<noteq> r2 \<Longrightarrow>
   data o1 = Some a \<Longrightarrow> data o2 \<noteq> Some a"
  unfolding wf_state_def by (metis option.distinct(1))

lemma wf_fresh: "wf_state s \<Longrightarrow> heap s a = Some cs \<Longrightarrow> a < next_addr s"
  by (simp add: wf_state_def)

lemma obj_inv_block:
  assumes "obj_inv s obj" and "data obj = Some a"
  shows "\<exists>cs. heap s a = Some cs \<and> int (length cs) = sint (size_A obj) \<and> 0 <s size_A obj"
  using assms by (auto simp add: obj_inv_def storage_def word_sless_alt split: option.splits)

lemma obj_inv_null: "obj_inv s obj \<Longrightarrow> data obj = None \<Longrightarrow> \<not> 0 <s size_A obj"
  by (simp add: obj_inv_def)

lemma obj_inv_same:
  assumes "obj_inv s obj" and "\<And>a. data obj = Some a \<Longrightarrow> heap s' a = heap s a"
  shows "obj_inv s' obj"
  using assms by (cases "data obj") (simp_all add: obj_inv_def storage_def)

lemma obj_inv_emptyI: "\<not> 0 <s n \<Longrightarrow> obj_inv s \<lparr>data = None, size_A = n\<rparr>"
  by (simp add: obj_inv_def storage_def word_sless_alt)

lemma obj_inv_blockI:
  assumes "0 <s n" and "heap s a = Some cs" and "length cs = unat n"
  shows "obj_inv s \<lparr>data = Some a, size_A = n\<rparr>"
proof -
  have "0 \<le> sint n"
    using assms(1) by (simp add: word_sless_alt)
  then have "int (unat n) = sint n"
    by (rule nonneg_sint_unat)
  then show ?thesis
    using assms by (simp add: obj_inv_def storage_def word_sless_alt)
qed

lemma wf_add_empty:
  assumes wf: "wf_state s" and n: "\<not> 0 <s n"
    and o': "objs s' = (objs s)(this \<mapsto> \<lparr>data = None, size_A = n\<rparr>)"
    and h': "heap s' = heap s" and a': "next_addr s' = next_addr s"
  shows "wf_state s'"
proof (rule wf_stateI)
  fix r obj assume "objs s' r = Some obj"
  then show "obj_inv s' obj"
    using wf n by (auto simp add: o' h' obj_inv_emptyI split: if_splits intro: obj_inv_same [OF wf_obj])
next
  fix r1 r2 o1 o2 a
  assume "objs s' r1 = Some o1" "objs s' r2 = Some o2" "r1 \<noteq> r2" "data o1 = Some a"
  then show "data o2 \<noteq> Some a"
    using wf by (auto simp add: o' split: if_splits dest: wf_excl)
next
  fix a cs assume "heap s' a = Some cs"
  then show "a < next_addr s'"
    using wf by (simp add: h' a' wf_fresh)
qed

lemma wf_add_fresh:
  assumes wf: "wf_state s" and n: "0 <s n" and len: "length cs = unat n"
    and o': "objs s' = (objs s)(this \<mapsto> \<lparr>data = Some (next_addr s), size_A = n\<rparr>)"
    and h': "heap s' = (heap s)(next_addr s \<mapsto> cs)" and a': "next_addr s' = Suc (next_addr s)"
  shows "wf_state s'"
proof (rule wf_stateI)
  have unused: "heap s (next_addr s) = None"
    using wf_fresh [OF wf, of "next_addr s"] by (cases "heap s (next_addr s)") auto
  have elsewhere: "a \<noteq> next_addr s" if "objs s r = Some obj" "data obj = Some a" for r obj a
    using obj_inv_block [OF wf_obj [OF wf that(1)] that(2)] unused by auto
  {
    fix r obj assume live: "objs s' r = Some obj"
    show "obj_inv s' obj"
    proof (cases "r = this")
      case True
      then show ?thesis
        using live n len by (auto simp add: o' h' intro: obj_inv_blockI)
    next
      case False
      then have old: "objs s r = Some obj"
        using live by (simp add: o')
      show ?thesis
        using elsewhere [OF old] by (intro obj_inv_same [OF wf_obj [OF wf old]]) (simp add: h')
    qed
  next
    fix r1 r2 o1 o2 a
    assume "objs s' r1 = Some o1" "objs s' r2 = Some o2" "r1 \<noteq> r2" "data o1 = Some a"
    then have "(r1 = this \<and> a = next_addr s \<and> objs s r2 = Some o2) \<or>
               (r2 = this \<and> o2 = \<lparr>data = Some (next_addr s), size_A = n\<rparr> \<and> objs s r1 = Some o1 \<and> data o1 = Some a) \<or>
               (objs s r1 = Some o1 \<and> objs s r2 = Some o2 \<and> r1 \<noteq> r2 \<and> data o1 = Some a)"
      by (auto simp add: o' split: if_splits)
    then show "data o2 \<noteq> Some a"
    proof (elim disjE conjE)
      assume "a = next_addr s" "objs s r2 = Some o2"
      then show ?thesis using elsewhere [of r2 o2 a] by auto
    next
      assume "o2 = \<lparr>data = Some (next_addr s), size_A = n\<rparr>" "objs s r1 = Some o1" "data o1 = Some a"
      then show ?thesis using elsewhere [of r1 o1 a] by auto
    next
      assume "objs s r1 = Some o1" "objs s r2 = Some o2" "r1 \<noteq> r2" "data o1 = Some a"
      then show ?thesis by (rule wf_excl [OF wf])
    qed
  next
    fix a cs' assume "heap s' a = Some cs'"
    then show "a < next_addr s'"
      using wf_fresh [OF wf, of a] by (auto simp add: h' a' split: if_splits intro: less_SucI)
  }
qed

lemma wf_remove:
  assumes wf: "wf_state s" and t: "objs s this = Some t"
    and o': "objs s' = (objs s)(this := None)"
    and h': "heap s' = (case data t of None \<Rightarrow> heap s | Some a \<Rightarrow> (heap s)(a := None))"
    and a': "next_addr s' = next_addr s"
  shows "wf_state s'"
proof (rule wf_stateI)
  fix r obj assume live: "objs s' r = Some obj"
  then have r: "r \<noteq> this" and old: "objs s r = Some obj"
    by (auto simp add: o' split: if_splits)
  have "heap s' a = heap s a" if "data obj = Some a" for a
    using wf_excl [OF wf old t r that] by (cases "data t") (simp_all add: h')
  then show "obj_inv s' obj"
    by (intro obj_inv_same [OF wf_obj [OF wf old]])
next
  fix r1 r2 o1 o2 a
  assume "objs s' r1 = Some o1" "objs s' r2 = Some o2" "r1 \<noteq> r2" "data o1 = Some a"
  then show "data o2 \<noteq> Some a"
    using wf by (auto simp add: o' split: if_splits dest: wf_excl)
next
  fix a cs assume "heap s' a = Some cs"
  then have "heap s a = Some cs"
    by (cases "data t") (auto simp add: h' split: if_splits)
  then show "a < next_addr s'"
    using wf by (simp add: a' wf_fresh)
qed

lemma wf_swap:
  assumes wf: "wf_state s" and t: "objs s this = Some t" and ob: "objs s other = Some ob"
    and o': "objs s' = (objs s)(this \<mapsto> ob, other \<mapsto> t)"
    and h': "heap s' = heap s" and a': "next_addr s' = next_addr s"
    and ne: "this \<noteq> other"
  shows "wf_state s'"
proof (rule wf_stateI)
  fix r obj assume live: "objs s' r = Some obj"
  then obtain r0 where "objs s r0 = Some obj"
    using t ob by (auto simp add: o' split: if_splits)
  then show "obj_inv s' obj"
    by (intro obj_inv_same [OF wf_obj [OF wf]]) (simp_all add: h')
next
  fix r1 r2 o1 o2 a
  assume "objs s' r1 = Some o1" "objs s' r2 = Some o2" "r1 \<noteq> r2" "data o1 = Some a"
  then show "data o2 \<noteq> Some a"
    using wf t ob ne by (auto simp add: o' split: if_splits dest: wf_excl)
next
  fix a cs assume "heap s' a = Some cs"
  then show "a < next_addr s'"
    using wf by (simp add: h' a' wf_fresh)
qed

lemma wf_frame:
  assumes wf: "wf_state s"
    and o': "objs s' = objs s" and h': "heap s' = heap s" and a': "next_addr s' = next_addr s"
  shows "wf_state s'"
proof (rule wf_stateI)
  fix r obj assume "objs s' r = Some obj"
  then show "obj_inv s' obj"
    by (intro obj_inv_same [OF wf_obj [OF wf]]) (simp_all add: o' h')
next
  fix r1 r2 o1 o2 a
  assume "objs s' r1 = Some o1" "objs s' r2 = Some o2" "r1 \<noteq> r2" "data o1 = Some a"
  then show "data o2 \<noteq> Some a"
    unfolding o' by (rule wf_excl [OF wf])
next
  fix a cs assume "heap s' a = Some cs"
  then show "a < next_addr s'"
    using wf by (simp add: h' a' wf_fresh)
qed

lemma obj_inv_block_unat:
  assumes "obj_inv s obj" and "data obj = Some a"
  obtains cs where "heap s a = Some cs" and "length cs = unat (size_A obj)" and "0 <s size_A obj"
proof -
  obtain cs where cs: "heap s a = Some cs" "int (length cs) = sint (size_A obj)" "0 <s size_A obj"
    using obj_inv_block [OF assms] by blast
  have "0 \<le> sint (size_A obj)"
    using cs(3) by (simp add: word_sless_alt)
  then have "int (unat (size_A obj)) = sint (size_A obj)"
    by (rule nonneg_sint_unat)
  then have "length cs = unat (size_A obj)"
    using cs(2) by linarith
  then show ?thesis
    using cs that by blast
qed

lemma obj_inv_pos_data:
  assumes "obj_inv s obj" and "0 <s size_A obj"
  obtains a where "data obj = Some a"
  using assms by (cases "data obj") (auto simp add: obj_inv_def)

text \<open>The three outcomes of the copy constructor on a well-formed store.\<close>

lemma A_copy_pos:
  assumes wf: "wf_state s" and ob: "objs s other = Some ob" and pos: "0 <s size_A ob"
    and mem: "unat (size_A ob) \<le> avail s"
  obtains a sc where "data ob = Some a" and "heap s a = Some sc" and "a \<noteq> next_addr s"
    and "length sc = unat (size_A ob)"
    and "A_copy this other s =
         Inr ((), s\<lparr>objs := (objs s)(this \<mapsto> \<lparr>data = Some (next_addr s), size_A = size_A ob\<rparr>),
                     heap := (heap s)(next_addr s \<mapsto> sc),
                     next_addr := Suc (next_addr s),
                     avail := avail s - unat (size_A ob),
                     out := out s @ [''Copy constructor'']\<rparr>)"
proof -
  obtain a where a: "data ob = Some a"
    using obj_inv_pos_data [OF wf_obj [OF wf ob] pos] by blast
  obtain sc where sc: "heap s a = Some sc" "length sc = unat (size_A ob)"
    using obj_inv_block_unat [OF wf_obj [OF wf ob] a] by blast
  have ne: "a \<noteq> next_addr s"
    using wf_fresh [OF wf sc(1)] by simp
  have "A_copy this other s =
         Inr ((), s\<lparr>objs := (objs s)(this \<mapsto> \<lparr>data = Some (next_addr s), size_A = size_A ob\<rparr>),
                     heap := (heap s)(next_addr s \<mapsto> sc),
                     next_addr := Suc (next_addr s),
                     avail := avail s - unat (size_A ob),
                     out := out s @ [''Copy constructor'']\<rparr>)"
    using pos mem a sc ne
    by (simp add: A_copy_def ob Let_def cout_def new_array_def set_data_def memcpy_def)
  then show ?thesis
    using a sc ne that by blast
qed

lemma A_copy_oom:
  assumes "objs s other = Some ob" and "0 <s size_A ob" and "\<not> unat (size_A ob) \<le> avail s"
  shows "A_copy this other s =
         Inl (OutOfMemory, s\<lparr>objs := (objs s)(this := None), out := out s @ [''Copy constructor'']\<rparr>)"
  using assms by (simp add: A_copy_def Let_def cout_def new_array_def abandon_def)

lemma A_copy_nonpos:
  assumes "objs s other = Some ob" and "\<not> 0 <s size_A ob"
  shows "A_copy this other s =
         Inr ((), s\<lparr>objs := (objs s)(this \<mapsto> \<lparr>data = None, size_A = size_A ob\<rparr>),
                     out := out s @ [''Copy constructor'']\<rparr>)"
  using assms by (simp add: A_copy_def Let_def cout_def set_data_def)

section \<open>Outcomes of the operations on a well-formed store\<close>

lemma A_overwrite: "(t::A)\<lparr>size_A := n, data := p\<rparr> = \<lparr>data = p, size_A = n\<rparr>"
  by (cases t) simp

lemma delete_own:
  assumes wf: "wf_state s" and t: "objs s this = Some t"
  obtains s2 where "delete_array (data t) s = Some s2" and "objs s2 = objs s"
    and "heap s2 = (case data t of None \<Rightarrow> heap s | Some a \<Rightarrow> (heap s)(a := None))"
    and "next_addr s2 = next_addr s" and "out s2 = out s"
proof (cases "data t")
  case None
  then show ?thesis
    using that [of s] by (simp add: delete_array_def)
next
  case (Some a)
  then obtain cs where "heap s a = Some cs"
    using obj_inv_block [OF wf_obj [OF wf t]] by blast
  then show ?thesis
    using Some that [of "s\<lparr>heap := (heap s)(a := None), avail := avail s + length cs\<rparr>"]
    by (simp add: delete_array_def)
qed

lemma A_dtor_outcome:
  assumes wf: "wf_state s" and t: "objs s this = Some t"
  shows "\<exists>s'. A_dtor this s = Inr ((), s') \<and> wf_state s'"
proof -
  define s1 where "s1 = cout ''Destructor'' s"
  have wf1: "wf_state s1" and t1: "objs s1 this = Some t"
    using wf t by (auto simp add: s1_def cout_def intro: wf_frame)
  obtain s2 where s2: "delete_array (data t) s1 = Some s2" "objs s2 = objs s1"
    "heap s2 = (case data t of None \<Rightarrow> heap s1 | Some a \<Rightarrow> (heap s1)(a := None))"
    "next_addr s2 = next_addr s1"
    using delete_own [OF wf1 t1] by blast
  have "A_dtor this s = Inr ((), s2\<lparr>objs := (objs s2)(this := None)\<rparr>)"
    using s2(1) t1 by (simp add: A_dtor_def s1_def [symmetric])
  moreover have "wf_state (s2\<lparr>objs := (objs s2)(this := None)\<rparr>)"
    by (rule wf_remove [OF wf1 t1]) (simp_all add: s2)
  ultimately show ?thesis
    by blast
qed

lemma copy_assign_outcome:
  assumes wf: "wf_state s" and ne: "this \<noteq> other"
    and t: "objs s this = Some t" and ob: "objs s other = Some ob"
  shows "(\<exists>s'. copy_assign this other s = Inr (this, s') \<and> wf_state s') \<or>
         (\<exists>s'. copy_assign this other s = Inl (OutOfMemory, s'))"
proof -
  define s1 where "s1 = cout ''Copy assignment operator'' s"
  define sz where "sz = size_A ob"
  have wf1: "wf_state s1" and t1: "objs s1 this = Some t" and ob1: "objs s1 other = Some ob"
    using wf t ob by (auto simp add: s1_def cout_def intro: wf_frame)
  obtain s2 where s2: "delete_array (data t) s1 = Some s2" "objs s2 = objs s1"
    "heap s2 = (case data t of None \<Rightarrow> heap s1 | Some a \<Rightarrow> (heap s1)(a := None))"
    "next_addr s2 = next_addr s1"
    using delete_own [OF wf1 t1] by blast
  define rm where "rm = s2\<lparr>objs := (objs s2)(this := None)\<rparr>"
  have wf_rm: "wf_state rm"
    unfolding rm_def by (rule wf_remove [OF wf1 t1]) (simp_all add: s2)
  define s3 where "s3 = s2\<lparr>objs := (objs s2)(this \<mapsto> t\<lparr>size_A := sz\<rparr>)\<rparr>"
  have step: "copy_assign this other s =
      (if 0 <s sz
       then (case new_array sz s3 of
               None \<Rightarrow> Inl (OutOfMemory, s3)
             | Some (p, s4) \<Rightarrow>
                 let s5 = set_data this (Some p) s4
                 in (case memcpy (Some p) (data ob) (unat sz) s5 of
                       None \<Rightarrow> Inl (Undefined, s5)
                     | Some s6 \<Rightarrow> Inr (this, s6)))
       else Inr (this, set_data this None s3))"
    using ne t1 ob1 s2(1) unfolding s3_def
    by (simp add: copy_assign_def s1_def [symmetric] sz_def [symmetric] Let_def)
  show ?thesis
  proof (cases "0 <s sz")
    case False
    have "wf_state (set_data this None s3)"
      using False
      by (intro wf_add_empty [OF wf_rm, where n = sz and this = this])
         (auto simp add: set_data_def s3_def rm_def A_overwrite)
    then show ?thesis
      using False step by simp
  next
    case pos: True
    show ?thesis
    proof (cases "unat sz \<le> avail s3")
      case False
      then show ?thesis
        using pos step by (simp add: new_array_def)
    next
      case True
      obtain a where a: "data ob = Some a"
        using obj_inv_pos_data [OF wf_obj [OF wf1 ob1]] pos by (auto simp add: sz_def)
      obtain sc where sc: "heap s1 a = Some sc" "length sc = unat sz"
        using obj_inv_block_unat [OF wf_obj [OF wf1 ob1] a] by (auto simp add: sz_def)
      have kept: "heap s2 a = Some sc"
        using wf_excl [OF wf1 ob1 t1 ne [symmetric] a] sc(1)
        by (cases "data t") (simp_all add: s2)
      have fresh: "a \<noteq> next_addr s1"
        using wf_fresh [OF wf1 sc(1)] by simp
      define s6 where "s6 = s3\<lparr>objs := (objs s3)(this \<mapsto> \<lparr>data = Some (next_addr s1), size_A = sz\<rparr>),
                               heap := (heap s3)(next_addr s1 \<mapsto> sc),
                               next_addr := Suc (next_addr s1),
                               avail := avail s3 - unat sz\<rparr>"
      have res: "copy_assign this other s = Inr (this, s6)"
        using pos True a sc(2) kept fresh
        by (simp add: step new_array_def set_data_def memcpy_def s3_def s2 s6_def Let_def A_overwrite)
      have "wf_state s6"
        by (rule wf_add_fresh [OF wf_rm pos sc(2), where this = this])
           (auto simp add: s6_def s3_def rm_def s2)
      then show ?thesis
        using res by blast
    qed
  qed
qed

lemma A_eta: "\<lparr>data = data t, size_A = size_A t\<rparr> = (t::A)"
  by (cases t) simp

lemma A_default_outcome:
  assumes wf: "wf_state s"
  shows "\<exists>s'. A_default this s = Inr ((), s') \<and> wf_state s'"
proof -
  have "wf_state (cout ''Default constructor'' (s\<lparr>objs := (objs s)(this \<mapsto> \<lparr>data = None, size_A = 0\<rparr>)\<rparr>))"
    by (rule wf_add_empty [OF wf, where n = 0 and this = this]) (simp_all add: cout_def)
  then show ?thesis
    by (simp add: A_default_def)
qed

lemma ctor_body_outcome:
  assumes wf: "wf_state s"
    and body: "\<And>s'. 0 <s sz \<Longrightarrow> unat sz \<le> avail s \<Longrightarrow>
       s' = s\<lparr>objs := (objs s)(this \<mapsto> \<lparr>data = Some (next_addr s), size_A = sz\<rparr>),
                 heap := (heap s)(next_addr s \<mapsto> replicate (unat sz) (Some 0)),
                 next_addr := Suc (next_addr s),
                 avail := avail s - unat sz,
                 out := out s @ [l]\<rparr> \<Longrightarrow> r = Inr ((), s')"
    and oom: "0 <s sz \<Longrightarrow> \<not> unat sz \<le> avail s \<Longrightarrow>
       r = Inl (OutOfMemory, s\<lparr>objs := (objs s)(this := None), out := out s @ [l]\<rparr>)"
    and nonpos: "\<not> 0 <s sz \<Longrightarrow>
       r = Inr ((), s\<lparr>objs := (objs s)(this \<mapsto> \<lparr>data = None, size_A = sz\<rparr>), out := out s @ [l]\<rparr>)"
  shows "(\<exists>s'. r = Inr ((), s') \<and> wf_state s') \<or> (\<exists>s'. r = Inl (OutOfMemory, s'))"
proof (cases "0 <s sz")
  case False
  have "wf_state (s\<lparr>objs := (objs s)(this \<mapsto> \<lparr>data = None, size_A = sz\<rparr>), out := out s @ [l]\<rparr>)"
    using False by (intro wf_add_empty [OF wf, where n = sz and this = this]) simp_all
  then show ?thesis
    using nonpos [OF False] by blast
next
  case pos: True
  show ?thesis
  proof (cases "unat sz \<le> avail s")
    case False
    then show ?thesis
      using oom [OF pos] by blast
  next
    case True
    define s' where "s' = s\<lparr>objs := (objs s)(this \<mapsto> \<lparr>data = Some (next_addr s), size_A = sz\<rparr>),
                 heap := (heap s)(next_addr s \<mapsto> replicate (unat sz) (Some 0)),
                 next_addr := Suc (next_addr s),
                 avail := avail s - unat sz,
                 out := out s @ [l]\<rparr>"
    have "wf_state s'"
      by (rule wf_add_fresh [OF wf pos, where this = this and cs = "replicate (unat sz) (Some 0)"])
         (simp_all add: s'_def)
    then show ?thesis
      using body [OF pos True s'_def] by blast
  qed
qed

lemma A_int_outcome:
  assumes wf: "wf_state s"
  shows "(\<exists>s'. A_int this n s = Inr ((), s') \<and> wf_state s') \<or>
         (\<exists>s'. A_int this n s = Inl (OutOfMemory, s'))"
  by (rule ctor_body_outcome [OF wf, where sz = n and this = this
                              and l = "''Parameterized constructor''"])
     (simp_all add: A_int_pos A_int_oom A_int_nonpos)

lemma A_double_outcome:
  assumes wf: "wf_state s" and cast: "static_cast_int d = Some n"
  shows "(\<exists>s'. A_double this d s = Inr ((), s') \<and> wf_state s') \<or>
         (\<exists>s'. A_double this d s = Inl (OutOfMemory, s'))"
  by (rule ctor_body_outcome [OF wf, where sz = n and this = this
                              and l = "''conversion constructor (double to A)''"])
     (simp_all add: A_double_pos [OF cast] A_double_oom [OF cast] A_double_nonpos [OF cast])

lemma operator_int_outcome:
  assumes wf: "wf_state s" and t: "objs s this = Some t"
  shows "\<exists>s'. operator_int this s = Inr (size_A t, s') \<and> wf_state s'"
proof -
  have "wf_state (cout ''Conversion operator (A to int)'' s)"
    by (rule wf_frame [OF wf]) (simp_all add: cout_def)
  then show ?thesis
    using t by (simp add: operator_int_def cout_def)
qed

lemma A_copy_outcome:
  assumes wf: "wf_state s" and ob: "objs s other = Some ob"
  shows "(\<exists>s'. A_copy this other s = Inr ((), s') \<and> wf_state s') \<or>
         (\<exists>s'. A_copy this other s = Inl (OutOfMemory, s'))"
proof (cases "0 <s size_A ob")
  case False
  have "wf_state (s\<lparr>objs := (objs s)(this \<mapsto> \<lparr>data = None, size_A = size_A ob\<rparr>),
                     out := out s @ [''Copy constructor'']\<rparr>)"
    using False by (intro wf_add_empty [OF wf, where n = "size_A ob" and this = this]) simp_all
  then show ?thesis
    using A_copy_nonpos [OF ob False] by simp
next
  case pos: True
  show ?thesis
  proof (cases "unat (size_A ob) \<le> avail s")
    case False
    then show ?thesis
      using A_copy_oom [OF ob pos] by simp
  next
    case True
    obtain a sc where sc: "length sc = unat (size_A ob)"
      and res: "A_copy this other s =
         Inr ((), s\<lparr>objs := (objs s)(this \<mapsto> \<lparr>data = Some (next_addr s), size_A = size_A ob\<rparr>),
                     heap := (heap s)(next_addr s \<mapsto> sc),
                     next_addr := Suc (next_addr s),
                     avail := avail s - unat (size_A ob),
                     out := out s @ [''Copy constructor'']\<rparr>)"
      using A_copy_pos [OF wf ob pos True, of this] by metis
    have "wf_state (s\<lparr>objs := (objs s)(this \<mapsto> \<lparr>data = Some (next_addr s), size_A = size_A ob\<rparr>),
                     heap := (heap s)(next_addr s \<mapsto> sc),
                     next_addr := Suc (next_addr s),
                     avail := avail s - unat (size_A ob),
                     out := out s @ [''Copy constructor'']\<rparr>)"
      by (rule wf_add_fresh [OF wf pos sc, where this = this]) simp_all
    then show ?thesis
      using res by simp
  qed
qed

lemma move_assign_outcome:
  assumes wf: "wf_state s" and t: "objs s this = Some t" and ob: "objs s other = Some ob"
  shows "\<exists>s'. move_assign this other s = Inr (this, s') \<and> wf_state s'"
proof (cases "this = other")
  case True
  have "wf_state (cout ''Move copy assignment operator'' s)"
    by (rule wf_frame [OF wf]) (simp_all add: cout_def)
  then show ?thesis
    using True by (simp add: move_assign_def)
next
  case False
  define s' where "s' = s\<lparr>objs := (objs s)(this \<mapsto> ob, other \<mapsto> t),
                          out := out s @ [''Move copy assignment operator'']\<rparr>"
  have "move_assign this other s = Inr (this, s')"
    using False t ob by (simp add: move_assign_def cout_def s'_def A_overwrite A_eta)
  moreover have "wf_state s'"
    by (rule wf_swap [OF wf t ob _ _ _ False]) (simp_all add: s'_def)
  ultimately show ?thesis
    by blast
qed

lemma A_move_outcome:
  assumes wf: "wf_state s" and fresh: "objs s this = None" and ob: "objs s other = Some ob"
  shows "\<exists>s'. A_move this other s = Inr ((), s') \<and> wf_state s'"
proof -
  have ne: "this \<noteq> other"
    using fresh ob by auto
  define s1 where "s1 = s\<lparr>objs := (objs s)(this \<mapsto> \<lparr>data = None, size_A = 0\<rparr>)\<rparr>"
  define s' where "s' = s1\<lparr>objs := (objs s1)(this \<mapsto> ob, other \<mapsto> \<lparr>data = None, size_A = 0\<rparr>),
                          out := out s @ [''Move constructor'']\<rparr>"
  have wf1: "wf_state s1"
    by (rule wf_add_empty [OF wf, where n = 0 and this = this]) (simp_all add: s1_def)
  have "A_move this other s = Inr ((), s')"
    using ne ob by (simp add: A_move_def cout_def s'_def s1_def A_overwrite A_eta)
  moreover have "wf_state s'"
    by (rule wf_swap [OF wf1, where this = this and other = other and ob = ob
                      and t = "\<lparr>data = None, size_A = 0\<rparr>"])
       (use ne ob in \<open>simp_all add: s'_def s1_def\<close>)
  ultimately show ?thesis
    by blast
qed

text \<open>
  On a well-formed store a call either returns, in a well-formed store again, or it is one
  of the four allocating member functions and \<open>new\<close> has thrown.
\<close>

lemma exec_outcome:
  assumes wf: "wf_state s" and ok: "callable c s"
  shows "(\<exists>s'. exec c s = Inr s' \<and> wf_state s') \<or>
         (allocates c \<and> (\<exists>s'. exec c s = Inl (OutOfMemory, s')))"
proof (cases c)
  case (DefaultCtor this)
  then show ?thesis
    using A_default_outcome [OF wf, of this] by auto
next
  case (IntCtor this n)
  then show ?thesis
    using A_int_outcome [OF wf, of this n] by auto
next
  case (Dtor this)
  then obtain t where "objs s this = Some t"
    using ok by auto
  then show ?thesis
    using A_dtor_outcome [OF wf, of this t] Dtor by auto
next
  case (DoubleCtor this d)
  then obtain n where "static_cast_int d = Some n"
    using ok by auto
  then show ?thesis
    using A_double_outcome [OF wf, of d n this] DoubleCtor by auto
next
  case (ConvInt this)
  then obtain t where "objs s this = Some t"
    using ok by auto
  then show ?thesis
    using operator_int_outcome [OF wf, of this t] ConvInt by auto
next
  case (CopyCtor this other)
  then obtain ob where "objs s other = Some ob"
    using ok by auto
  then show ?thesis
    using A_copy_outcome [OF wf, of other ob this] CopyCtor by auto
next
  case (MoveCtor this other)
  then obtain ob where "objs s other = Some ob" "objs s this = None"
    using ok by auto
  then show ?thesis
    using A_move_outcome [OF wf, of this other ob] MoveCtor by auto
next
  case (CopyAssign this other)
  then obtain t ob where live: "objs s this = Some t" "objs s other = Some ob"
    using ok by auto
  show ?thesis
  proof (cases "this = other")
    case True
    have "wf_state (cout ''Copy assignment operator'' s)"
      by (rule wf_frame [OF wf]) (simp_all add: cout_def)
    then show ?thesis
      using True CopyAssign by (simp add: copy_assign_def)
  next
    case False
    then show ?thesis
      using copy_assign_outcome [OF wf False live] CopyAssign by auto
  qed
next
  case (MoveAssign this other)
  then obtain t ob where "objs s this = Some t" "objs s other = Some ob"
    using ok by auto
  then show ?thesis
    using move_assign_outcome [OF wf, of this t other ob] MoveAssign by auto
qed

text \<open>
  A constructor that ends with \<open>std::bad_alloc\<close> leaves the store well-formed: it has
  allocated nothing and its instance never came to life.
\<close>

lemma failed_ctor_wf:
  assumes wf: "wf_state s" and ok: "callable c s"
    and fail: "exec c s = Inl (OutOfMemory, s')"
    and ctor: "\<And>this other. c \<noteq> CopyAssign this other"
  shows "wf_state s'"
proof -
  have gone: "wf_state (s\<lparr>objs := (objs s)(this := None), out := out s @ [l]\<rparr>)"
    if "objs s this = None" for this l
    using that by (intro wf_frame [OF wf]) (simp_all add: fun_upd_idem)
  have alloc: "allocates c"
    using exec_outcome [OF wf ok] fail by (elim disjE exE conjE) simp_all
  show ?thesis
  proof (cases c)
    case (IntCtor this n)
    then have fresh: "objs s this = None"
      using ok by simp
    consider (pos) "0 <s n" "unat n \<le> avail s" | (oom) "0 <s n" "\<not> unat n \<le> avail s"
      | (nonpos) "\<not> 0 <s n"
      by blast
    then show ?thesis
    proof cases
      case pos
      then show ?thesis using fail IntCtor by (simp add: A_int_pos)
    next
      case oom
      then show ?thesis using fail IntCtor gone [OF fresh] by (auto simp add: A_int_oom)
    next
      case nonpos
      then show ?thesis using fail IntCtor by (simp add: A_int_nonpos)
    qed
  next
    case (DoubleCtor this d)
    then obtain n where fresh: "objs s this = None" and cast: "static_cast_int d = Some n"
      using ok by auto
    consider (pos) "0 <s n" "unat n \<le> avail s" | (oom) "0 <s n" "\<not> unat n \<le> avail s"
      | (nonpos) "\<not> 0 <s n"
      by blast
    then show ?thesis
    proof cases
      case pos
      then show ?thesis using fail DoubleCtor by (simp add: A_double_pos [OF cast])
    next
      case oom
      then show ?thesis
        using fail DoubleCtor gone [OF fresh] by (auto simp add: A_double_oom [OF cast])
    next
      case nonpos
      then show ?thesis using fail DoubleCtor by (simp add: A_double_nonpos [OF cast])
    qed
  next
    case (CopyCtor this other)
    then obtain ob where fresh: "objs s this = None" and ob: "objs s other = Some ob"
      using ok by auto
    consider (pos) "0 <s size_A ob" "unat (size_A ob) \<le> avail s"
      | (oom) "0 <s size_A ob" "\<not> unat (size_A ob) \<le> avail s"
      | (nonpos) "\<not> 0 <s size_A ob"
      by blast
    then show ?thesis
    proof cases
      case pos
      obtain s2 where "A_copy this other s = Inr ((), s2)"
        using A_copy_pos [OF wf ob pos, of this] by metis
      then show ?thesis using fail CopyCtor by simp
    next
      case oom
      then show ?thesis
        using fail CopyCtor gone [OF fresh] by (auto simp add: A_copy_oom [OF ob])
    next
      case nonpos
      then show ?thesis using fail CopyCtor by (simp add: A_copy_nonpos [OF ob])
    qed
  next
    case (CopyAssign this other)
    then show ?thesis using ctor by simp
  qed (use alloc in simp_all)
qed

section \<open>The example stores\<close>

lemma wf_init: "wf_state (init_state m)"
  by (rule wf_stateI) (simp_all add: init_state_def)

lemma one_buffer_eq:
  "one_buffer = \<lparr>objs = [0 \<mapsto> \<lparr>data = Some 0, size_A = 3\<rparr>],
                  heap = [0 \<mapsto> [Some 0, Some 0, Some 0]],
                  next_addr = 1, avail = 5, out = [''Parameterized constructor'']\<rparr>"
proof -
  have "(0::int32) <s 3" and "unat (3::int32) \<le> avail (init_state 8)"
    by (simp_all add: word_sless_alt init_state_def)
  moreover have "replicate (unat (3::int32)) (Some (0::int32)) = replicate 3 (Some 0)"
    by simp
  moreover have "replicate 3 (Some (0::int32)) = [Some 0, Some 0, Some 0]"
    by (simp add: numeral_3_eq_3)
  ultimately show ?thesis
    by (simp add: one_buffer_def A_int_pos post_def init_state_def)
qed

lemma two_buffers_eq:
  "two_buffers = \<lparr>objs = [0 \<mapsto> \<lparr>data = Some 0, size_A = 3\<rparr>, 1 \<mapsto> \<lparr>data = None, size_A = 0\<rparr>],
                  heap = [0 \<mapsto> [Some 0, Some 0, Some 0]],
                  next_addr = 1, avail = 5,
                  out = [''Parameterized constructor'', ''Default constructor'']\<rparr>"
  by (simp add: two_buffers_def one_buffer_eq A_default_def post_def cout_def)

lemma wf_one_buffer: "wf_state one_buffer"
proof -
  have "\<exists>s'. A_int 0 3 (init_state 8) = Inr ((), s') \<and> wf_state s'"
    using A_int_outcome [OF wf_init, of 0 3 8]
    apply (auto simp add: A_int_pos word_sless_alt init_state_def)
    done
  then show ?thesis
    by (auto simp add: one_buffer_def post_def)
qed

lemma wf_two_buffers: "wf_state two_buffers"
  using A_default_outcome [OF wf_one_buffer, of 1]
  by (auto simp add: two_buffers_def post_def)

lemma replicate_5: "replicate 5 x = [x, x, x, x, x]"
  by (simp add: eval_nat_numeral)

lemma replicate_2: "replicate 2 x = [x, x]"
  by (simp add: eval_nat_numeral)

lemma before_failed_assign_eq:
  "before_failed_assign =
     \<lparr>objs = [0 \<mapsto> \<lparr>data = Some 0, size_A = 5\<rparr>, 1 \<mapsto> \<lparr>data = Some 1, size_A = 2\<rparr>],
      heap = [0 \<mapsto> [Some 0, Some 0, Some 0, Some 0, Some 0], 1 \<mapsto> [Some 0, Some 0]],
      next_addr = 2, avail = 1,
      out = [''Parameterized constructor'', ''Parameterized constructor'']\<rparr>"
proof -
  have first: "A_int 0 5 (init_state 8) =
      Inr ((), \<lparr>objs = [0 \<mapsto> \<lparr>data = Some 0, size_A = 5\<rparr>],
                 heap = [0 \<mapsto> [Some 0, Some 0, Some 0, Some 0, Some 0]],
                 next_addr = 1, avail = 3, out = [''Parameterized constructor'']\<rparr>)"
  proof -
    have "(0::int32) <s 5" and "unat (5::int32) \<le> avail (init_state 8)"
      by (simp_all add: word_sless_alt init_state_def)
    then show ?thesis
      by (simp add: A_int_pos replicate_5) (simp add: init_state_def)
  qed
  have "A_int 1 2 \<lparr>objs = [0 \<mapsto> \<lparr>data = Some 0, size_A = 5\<rparr>],
                 heap = [0 \<mapsto> [Some 0, Some 0, Some 0, Some 0, Some 0]],
                 next_addr = 1, avail = 3, out = [''Parameterized constructor'']\<rparr> =
     Inr ((), \<lparr>objs = [0 \<mapsto> \<lparr>data = Some 0, size_A = 5\<rparr>, 1 \<mapsto> \<lparr>data = Some 1, size_A = 2\<rparr>],
      heap = [0 \<mapsto> [Some 0, Some 0, Some 0, Some 0, Some 0], 1 \<mapsto> [Some 0, Some 0]],
      next_addr = 2, avail = 1,
      out = [''Parameterized constructor'', ''Parameterized constructor'']\<rparr>)"
  proof -
    have "(0::int32) <s 2"
      by (simp add: word_sless_alt)
    then show ?thesis
      by (simp add: A_int_pos replicate_2)
  qed
  then show ?thesis
    by (simp add: before_failed_assign_def first post_def)
qed

text \<open>
  The copy assignment stops at \<open>new\<close>: \<open>b\<close> has taken the length 5 of \<open>a\<close> and still
  points to its released array.
\<close>

lemma copy_assign_fails:
  "copy_assign 1 0 before_failed_assign =
     Inl (OutOfMemory,
          \<lparr>objs = [0 \<mapsto> \<lparr>data = Some 0, size_A = 5\<rparr>, 1 \<mapsto> \<lparr>data = Some 1, size_A = 5\<rparr>],
           heap = [0 \<mapsto> [Some 0, Some 0, Some 0, Some 0, Some 0]],
           next_addr = 2, avail = 3,
           out = [''Parameterized constructor'', ''Parameterized constructor'',
                  ''Copy assignment operator'']\<rparr>)"
  by (simp add: copy_assign_def before_failed_assign_eq cout_def delete_array_def new_array_def
        word_sless_alt Let_def)

lemma after_failed_assign_eq:
  "after_failed_assign =
          \<lparr>objs = [0 \<mapsto> \<lparr>data = Some 0, size_A = 5\<rparr>, 1 \<mapsto> \<lparr>data = Some 1, size_A = 5\<rparr>],
           heap = [0 \<mapsto> [Some 0, Some 0, Some 0, Some 0, Some 0]],
           next_addr = 2, avail = 3,
           out = [''Parameterized constructor'', ''Parameterized constructor'',
                  ''Copy assignment operator'']\<rparr>"
  unfolding after_failed_assign_def copy_assign_fails post_def by simp

text \<open>The specification's invariant is the code's invariant plus a non-negative length.\<close>

lemma buffer_inv_iff: "buffer_inv s obj \<longleftrightarrow> obj_inv s obj \<and> 0 \<le>s size_A obj"
  by (auto simp add: buffer_inv_def obj_inv_def word_sle_eq split: option.splits)

text \<open>\<open>b = a;\<close> and \<open>A c(a);\<close> on the example stores.\<close>

lemma copy_assign_two_buffers:
  "copy_assign 1 0 two_buffers =
     Inr (1, \<lparr>objs = [0 \<mapsto> \<lparr>data = Some 0, size_A = 3\<rparr>, 1 \<mapsto> \<lparr>data = Some 1, size_A = 3\<rparr>],
              heap = [0 \<mapsto> [Some 0, Some 0, Some 0], 1 \<mapsto> [Some 0, Some 0, Some 0]],
              next_addr = 2, avail = 2,
              out = [''Parameterized constructor'', ''Default constructor'',
                     ''Copy assignment operator'']\<rparr>)"
  by (simp add: copy_assign_def two_buffers_eq cout_def delete_array_def new_array_def
        set_data_def memcpy_def word_sless_alt Let_def)

lemma A_copy_one_buffer:
  "A_copy 1 0 one_buffer =
     Inr ((), \<lparr>objs = [0 \<mapsto> \<lparr>data = Some 0, size_A = 3\<rparr>, 1 \<mapsto> \<lparr>data = Some 1, size_A = 3\<rparr>],
              heap = [0 \<mapsto> [Some 0, Some 0, Some 0], 1 \<mapsto> [Some 0, Some 0, Some 0]],
              next_addr = 2, avail = 2,
              out = [''Parameterized constructor'', ''Copy constructor'']\<rparr>)"
  by (simp add: A_copy_def one_buffer_eq cout_def new_array_def
        set_data_def memcpy_def word_sless_alt Let_def)

section \<open>The claims\<close>

text \<open>
  Claim C1. Move operations exchange the two instances. For distinct \<open>c\<close> and \<open>b\<close> with
  \<open>b\<close> live: move-assigning \<open>b\<close> into a live \<open>c\<close> returns \<open>c\<close>, leaves \<open>c\<close> with the length,
  pointer and elements \<open>b\<close> had and \<open>b\<close> with those \<open>c\<close> had, and touches no array;
  move-constructing \<open>c\<close> from \<open>b\<close> does the same, what \<open>c\<close> held before being the default
  member values \<open>nullptr\<close> and 0 of the instance under construction.
\<close>

theorem move_exchanges_members:
  assumes "c \<noteq> b" and "objs s b = Some ob"
  shows "(\<forall>t. objs s c = Some t \<longrightarrow>
            (\<exists>s'. move_assign c b s = Inr (c, s') \<and>
                  objs s' c = Some ob \<and> objs s' b = Some t \<and> heap s' = heap s \<and>
                  elements_of s' c = elements_of s b \<and> elements_of s' b = elements_of s c)) \<and>
         (objs s c = None \<longrightarrow>
            (\<exists>s'. A_move c b s = Inr ((), s') \<and>
                  objs s' c = Some ob \<and> objs s' b = Some empty_A \<and> heap s' = heap s \<and>
                  elements_of s' c = elements_of s b \<and> elements_of s' b = Some []))"
  using assms
  by (auto simp add: move_assign_def A_move_def cout_def elements_of_def storage_def empty_A_def
        A_overwrite A_eta split: option.splits)

theorem move_exchanges_members_witness:
  "(1::ref) \<noteq> 0 \<and> (2::ref) \<noteq> 0 \<and>
   objs two_buffers 0 = Some \<lparr>data = Some 0, size_A = 3\<rparr> \<and>
   objs two_buffers 1 = Some \<lparr>data = None, size_A = 0\<rparr> \<and>
   objs two_buffers 2 = None \<and>
   returned (move_assign 1 0 two_buffers) = Some 1 \<and>
   objs (post (move_assign 1 0 two_buffers)) 1 = Some \<lparr>data = Some 0, size_A = 3\<rparr> \<and>
   objs (post (move_assign 1 0 two_buffers)) 0 = Some \<lparr>data = None, size_A = 0\<rparr> \<and>
   elements_of (post (move_assign 1 0 two_buffers)) 1 = Some [Some 0, Some 0, Some 0] \<and>
   returned (A_move 2 0 two_buffers) = Some () \<and>
   objs (post (A_move 2 0 two_buffers)) 2 = Some \<lparr>data = Some 0, size_A = 3\<rparr> \<and>
   objs (post (A_move 2 0 two_buffers)) 0 = Some empty_A \<and>
   elements_of (post (A_move 2 0 two_buffers)) 2 = Some [Some 0, Some 0, Some 0] \<and>
   (0::ref) \<noteq> 1 \<and>
   returned (move_assign 0 1 two_buffers) = Some 0 \<and>
   objs (post (move_assign 0 1 two_buffers)) 0 = Some \<lparr>data = None, size_A = 0\<rparr> \<and>
   objs (post (move_assign 0 1 two_buffers)) 1 = Some \<lparr>data = Some 0, size_A = 3\<rparr> \<and>
   elements_of (post (move_assign 0 1 two_buffers)) 1 = Some [Some 0, Some 0, Some 0]"
proof -
  have b: "objs two_buffers 0 = Some \<lparr>data = Some 0, size_A = 3\<rparr>"
    and c1: "objs two_buffers 1 = Some \<lparr>data = None, size_A = 0\<rparr>"
    and c2: "objs two_buffers 2 = None"
    and el: "elements_of two_buffers 0 = Some [Some 0, Some 0, Some 0]"
    by (simp_all add: two_buffers_eq elements_of_def storage_def)
  have ne1: "(1::ref) \<noteq> 0" and ne2: "(2::ref) \<noteq> 0" and ne3: "(0::ref) \<noteq> 1"
    by simp_all
  show ?thesis
    using move_exchanges_members [OF ne1 b] move_exchanges_members [OF ne2 b]
      move_exchanges_members [OF ne3 c1] b c1 c2 el
    by (auto simp add: post_def returned_def)
qed

text \<open>
  Claim C2, as stated, fails at \<open>n = -1\<close>: the constructed instance reports length -1 and the
  conversion operator returns -1 on it, where the default constructor gives length 0.
\<close>

theorem withLength_negative_counterexample:
  "(- 1 :: int32) \<le>s 0 \<and>
   length_of (post (A_int 0 (- 1) (init_state 8))) 0 = Some (- 1) \<and>
   length_of (post (A_int 0 (- 1) (init_state 8))) 0 \<noteq> Some 0 \<and>
   returned (operator_int 0 (post (A_int 0 (- 1) (init_state 8)))) = Some (- 1) \<and>
   returned (operator_int 0 (post (A_int 0 (- 1) (init_state 8)))) \<noteq> Some 0 \<and>
   length_of (post (A_default 0 (init_state 8))) 0 = Some 0 \<and>
   returned (operator_int 0 (post (A_default 0 (init_state 8)))) = Some 0"
proof -
  have "\<not> (0::int32) <s - 1"
    by (simp add: word_sless_alt)
  then show ?thesis
    by (simp add: A_int_nonpos A_default_def post_def length_of_def operator_int_def cout_def
          returned_def word_sle_eq)
qed

text \<open>
  Claim C2, as amended. For \<open>n \<le> 0\<close> the \<open>int\<close> constructor always returns, allocates
  nothing and leaves an instance without storage whose length is \<open>n\<close> itself, so that the
  conversion operator returns \<open>n\<close> on it; for \<open>n = 0\<close> its outcome is that of the default
  constructor, the line printed on \<open>std::cout\<close> apart.
\<close>

theorem withLength_nonpositive:
  assumes "n \<le>s 0"
  shows "\<exists>s'. A_int this n s = Inr ((), s') \<and>
              objs s' this = Some \<lparr>data = None, size_A = n\<rparr> \<and>
              heap s' = heap s \<and> avail s' = avail s \<and>
              length_of s' this = Some n \<and> elements_of s' this = Some [] \<and>
              returned (operator_int this s') = Some n \<and>
              (n = 0 \<longrightarrow> without_trace (A_int this n s) = without_trace (A_default this s))"
proof -
  have "\<not> 0 <s n"
    using assms by (simp add: word_sle_eq word_sless_alt)
  then show ?thesis
    by (simp add: A_int_nonpos length_of_def elements_of_def storage_def operator_int_def
          cout_def returned_def without_trace_def A_default_def)
qed

theorem withLength_nonpositive_witness:
  "(- 1 :: int32) \<le>s 0 \<and> (0 :: int32) \<le>s 0 \<and>
   returned (A_int 0 (- 1) (init_state 8)) = Some () \<and>
   objs (post (A_int 0 (- 1) (init_state 8))) 0 = Some \<lparr>data = None, size_A = - 1\<rparr> \<and>
   returned (operator_int 0 (post (A_int 0 (- 1) (init_state 8)))) = Some (- 1) \<and>
   without_trace (A_int 0 0 (init_state 8)) = without_trace (A_default 0 (init_state 8))"
proof -
  have neg: "(- 1 :: int32) \<le>s 0" and zero: "(0 :: int32) \<le>s 0"
    by (simp_all add: word_sle_eq)
  show ?thesis
    using withLength_nonpositive [OF neg, of 0 "init_state 8"]
      withLength_nonpositive [OF zero, of 0 "init_state 8"] neg zero
    by (auto simp add: post_def returned_def)
qed

text \<open>
  Claim C3, as stated, fails at the call \<open>A a(-1)\<close>: it returns on the empty
  store and leaves an instance of length -1, which the invariant of the specification
  excludes.
\<close>

theorem invariant_counterexample:
  "wf_state (init_state 8) \<and> callable (IntCtor 0 (- 1)) (init_state 8) \<and>
   exec (IntCtor 0 (- 1)) (init_state 8) = Inr (post (A_int 0 (- 1) (init_state 8))) \<and>
   objs (post (A_int 0 (- 1) (init_state 8))) 0 = Some \<lparr>data = None, size_A = - 1\<rparr> \<and>
   \<not> buffer_inv (post (A_int 0 (- 1) (init_state 8))) \<lparr>data = None, size_A = - 1\<rparr>"
proof -
  have "\<not> (0::int32) <s - 1"
    by (simp add: word_sless_alt)
  then have "A_int 0 (- 1) (init_state 8) =
      Inr ((), (init_state 8)\<lparr>objs := (objs (init_state 8))(0 \<mapsto> \<lparr>data = None, size_A = - 1\<rparr>),
                              out := out (init_state 8) @ [''Parameterized constructor'']\<rparr>)"
    by (rule A_int_nonpos)
  moreover have "callable (IntCtor 0 (- 1)) (init_state 8)"
    by (simp add: init_state_def)
  moreover have "\<not> buffer_inv s \<lparr>data = None, size_A = - 1\<rparr>" for s
    by (simp add: buffer_inv_def word_sle_eq)
  ultimately show ?thesis
    using wf_init [of 8] by (simp add: post_def)
qed

text \<open>
  Claim C3, as amended. Every call that returns on a well-formed store leaves a
  well-formed store: each live instance has storage exactly when its length is positive,
  that storage has exactly \<open>length\<close> cells, and no two instances share an array. The length
  may be negative; for every instance whose length is not, the invariant holds as the
  specification words it.
\<close>

theorem operations_keep_invariant:
  assumes "wf_state s" and "callable c s" and "exec c s = Inr s'"
  shows "wf_state s' \<and>
         (\<forall>r obj. objs s' r = Some obj \<longrightarrow>
              obj_inv s' obj \<and> (0 \<le>s size_A obj \<longrightarrow> buffer_inv s' obj))"
proof -
  have "wf_state s'"
    using exec_outcome [OF assms(1,2)] assms(3) by auto
  then show ?thesis
    by (simp add: buffer_inv_iff wf_obj)
qed

theorem operations_keep_invariant_witness:
  "wf_state two_buffers \<and> callable (CopyAssign 1 0) two_buffers \<and>
   exec (CopyAssign 1 0) two_buffers = Inr (post (copy_assign 1 0 two_buffers)) \<and>
   wf_state (post (copy_assign 1 0 two_buffers)) \<and>
   objs (post (copy_assign 1 0 two_buffers)) 1 = Some \<lparr>data = Some 1, size_A = 3\<rparr> \<and>
   (0::int32) \<le>s 3 \<and>
   buffer_inv (post (copy_assign 1 0 two_buffers)) \<lparr>data = Some 1, size_A = 3\<rparr>"
proof -
  have ok: "callable (CopyAssign 1 0) two_buffers"
    by (simp add: two_buffers_eq)
  have run: "exec (CopyAssign 1 0) two_buffers = Inr (post (copy_assign 1 0 two_buffers))"
    unfolding exec.simps copy_assign_two_buffers post_def by simp
  have obj: "objs (post (copy_assign 1 0 two_buffers)) 1 = Some \<lparr>data = Some 1, size_A = 3\<rparr>"
    unfolding copy_assign_two_buffers post_def by simp
  have nonneg: "(0::int32) \<le>s 3"
    by (simp add: word_sle_eq)
  show ?thesis
    using operations_keep_invariant [OF wf_two_buffers ok run] wf_two_buffers ok run obj nonneg
    by auto
qed

text \<open>
  Claim C4. For \<open>n > 0\<close> the \<open>int\<close> constructor returns whenever the free store has \<open>n\<close>
  cells, and whenever it returns the new instance has length \<open>n\<close> and \<open>n\<close> elements, every
  one of them 0.
\<close>

theorem withLength_positive:
  assumes "0 <s n"
  shows "(unat n \<le> avail s \<longrightarrow> (\<exists>s'. A_int this n s = Inr ((), s'))) \<and>
         (\<forall>s'. A_int this n s = Inr ((), s') \<longrightarrow>
               length_of s' this = Some n \<and>
               elements_of s' this = Some (replicate (unat n) (Some 0)))"
proof (cases "unat n \<le> avail s")
  case True
  then show ?thesis
    using assms by (auto simp add: A_int_pos length_of_def elements_of_def storage_def)
next
  case False
  then show ?thesis
    using assms by (simp add: A_int_oom)
qed

theorem withLength_positive_witness:
  "(0::int32) <s 3 \<and> unat (3::int32) \<le> avail (init_state 8) \<and>
   A_int 0 3 (init_state 8) = Inr ((), one_buffer) \<and>
   length_of one_buffer 0 = Some 3 \<and>
   elements_of one_buffer 0 = Some [Some 0, Some 0, Some 0]"
proof -
  have pos: "(0::int32) <s 3"
    by (simp add: word_sless_alt)
  have mem: "unat (3::int32) \<le> avail (init_state 8)"
    by (simp add: init_state_def)
  have run: "A_int 0 3 (init_state 8) = Inr ((), one_buffer)"
    using withLength_positive [OF pos, of "init_state 8" 0] mem
    by (auto simp add: one_buffer_def post_def)
  have "length_of one_buffer 0 = Some 3 \<and>
        elements_of one_buffer 0 = Some (replicate (unat (3::int32)) (Some 0))"
    using withLength_positive [OF pos, of "init_state 8" 0] run by blast
  moreover have "replicate (unat (3::int32)) (Some (0::int32)) = replicate 3 (Some 0)"
    by simp
  moreover have "replicate 3 (Some (0::int32)) = [Some 0, Some 0, Some 0]"
    by (simp add: numeral_3_eq_3)
  ultimately show ?thesis
    using pos mem run by simp
qed

text \<open>
  Claim C5, as stated, fails at \<open>d = 1e10\<close>: its truncation 10000000000 is no \<open>int\<close>, so
  the conversion in the initializer of the \<open>double\<close> constructor is undefined there and no
  instance is made, and the \<open>int\<close> constructor cannot be given the value; given its 32 low
  bits, that constructor ends with \<open>std::bad_alloc\<close> instead.
\<close>

theorem fromNumeric_out_of_range_counterexample:
  "truncate_d 10000000000 = 10000000000 \<and>
   A_double 0 10000000000 (init_state 8) = Inl (Undefined, init_state 8) \<and>
   without_trace (A_double 0 10000000000 (init_state 8)) \<noteq>
   without_trace (A_int 0 (word_of_int (truncate_d 10000000000)) (init_state 8))"
proof -
  have t: "truncate_d 10000000000 = 10000000000"
    by (simp add: truncate_d_def)
  have d: "A_double 0 10000000000 (init_state 8) = Inl (Undefined, init_state 8)"
    by (simp add: A_double_def static_cast_int_def truncate_d_def)
  have "(0::int32) <s word_of_int 10000000000"
    and "\<not> unat (word_of_int 10000000000 :: int32) \<le> avail (init_state 8)"
    by (simp_all add: word_sless_alt init_state_def)
  then have "A_int 0 (word_of_int 10000000000) (init_state 8) =
     Inl (OutOfMemory, (init_state 8)\<lparr>objs := (objs (init_state 8))(0 := None),
                          out := out (init_state 8) @ [''Parameterized constructor'']\<rparr>)"
    by (rule A_int_oom)
  then show ?thesis
    unfolding t d by (simp add: without_trace_def)
qed

text \<open>
  Claim C5, as amended. For every \<open>d\<close> whose truncation toward zero is an \<open>int\<close>, the
  \<open>double\<close> constructor on \<open>d\<close> and the \<open>int\<close> constructor on that truncation have the same
  outcome and leave the same store, the line printed on \<open>std::cout\<close> apart.
\<close>

theorem fromNumeric_is_withLength_truncate:
  assumes "- (2 ^ 31) \<le> truncate_d d" and "truncate_d d < 2 ^ 31"
  shows "without_trace (A_double this d s) =
         without_trace (A_int this (word_of_int (truncate_d d)) s)"
proof -
  define sz :: int32 where "sz = word_of_int (truncate_d d)"
  have cast: "static_cast_int d = Some sz"
    using assms by (simp add: static_cast_int_def sz_def)
  consider (pos) "0 <s sz" "unat sz \<le> avail s" | (oom) "0 <s sz" "\<not> unat sz \<le> avail s"
    | (nonpos) "\<not> 0 <s sz"
    by blast
  then show ?thesis
  proof cases
    case pos
    then show ?thesis
      unfolding sz_def [symmetric]
      by (simp add: A_double_pos [OF cast] A_int_pos without_trace_def)
  next
    case oom
    then show ?thesis
      unfolding sz_def [symmetric]
      by (simp add: A_double_oom [OF cast] A_int_oom without_trace_def)
  next
    case nonpos
    then show ?thesis
      unfolding sz_def [symmetric]
      by (simp add: A_double_nonpos [OF cast] A_int_nonpos without_trace_def)
  qed
qed

theorem fromNumeric_is_withLength_truncate_witness:
  "- (2 ^ 31) \<le> truncate_d 1.23 \<and> truncate_d 1.23 < 2 ^ 31 \<and> truncate_d 1.23 = 1 \<and>
   without_trace (A_double 0 1.23 (init_state 8)) = without_trace (A_int 0 1 (init_state 8)) \<and>
   - (2 ^ 31) \<le> truncate_d (- 1.23) \<and> truncate_d (- 1.23) < 2 ^ 31 \<and> truncate_d (- 1.23) = - 1 \<and>
   without_trace (A_double 0 (- 1.23) (init_state 8)) = without_trace (A_int 0 (- 1) (init_state 8))"
proof -
  have t1: "truncate_d 1.23 = 1" and t2: "truncate_d (- 1.23) = - 1"
    by (simp_all add: truncate_d_def)
  have r1: "- (2 ^ 31) \<le> truncate_d 1.23" "truncate_d 1.23 < 2 ^ 31"
    and r2: "- (2 ^ 31) \<le> truncate_d (- 1.23)" "truncate_d (- 1.23) < 2 ^ 31"
    unfolding t1 t2 by simp_all
  show ?thesis
    using fromNumeric_is_withLength_truncate [OF r1, of 0 "init_state 8"]
      fromNumeric_is_withLength_truncate [OF r2, of 0 "init_state 8"] r1 r2
    unfolding t1 t2 by simp
qed

text \<open>
  Claim C6. Copy construction of \<open>c\<close> from a live \<open>b\<close> on a well-formed store returns
  whenever the free store has the cells it needs. When it returns, \<open>c\<close> has the length and
  the elements of \<open>b\<close>, in an array that was not allocated before and is not the one of
  \<open>b\<close>; \<open>b\<close> and its elements are as they were; and no later write to an element of \<open>c\<close>
  changes \<open>b\<close> or its elements.
\<close>

theorem copy_ctor_deep_copy:
  assumes wf: "wf_state s" and ob: "objs s b = Some ob" and fresh: "objs s c = None"
  shows "((0 <s size_A ob \<longrightarrow> unat (size_A ob) \<le> avail s) \<longrightarrow>
            (\<exists>s'. A_copy c b s = Inr ((), s'))) \<and>
         (\<forall>s'. A_copy c b s = Inr ((), s') \<longrightarrow>
            length_of s' c = length_of s b \<and>
            elements_of s' c = elements_of s b \<and>
            objs s' b = objs s b \<and>
            elements_of s' b = elements_of s b \<and>
            (\<forall>oc a. objs s' c = Some oc \<and> data oc = Some a \<longrightarrow>
                 heap s a = None \<and> data ob \<noteq> Some a) \<and>
            (\<forall>i v s''. store_elem c i v s' = Some s'' \<longrightarrow>
                 objs s'' b = objs s b \<and> elements_of s'' b = elements_of s b))"
proof -
  have ne: "c \<noteq> b"
    using ob fresh by auto
  consider (pos) "0 <s size_A ob" "unat (size_A ob) \<le> avail s"
    | (oom) "0 <s size_A ob" "\<not> unat (size_A ob) \<le> avail s"
    | (nonpos) "\<not> 0 <s size_A ob"
    by blast
  then show ?thesis
  proof cases
    case pos
    obtain a sc where a: "data ob = Some a" and sc: "heap s a = Some sc"
      and far: "a \<noteq> next_addr s"
      and res: "A_copy c b s =
         Inr ((), s\<lparr>objs := (objs s)(c \<mapsto> \<lparr>data = Some (next_addr s), size_A = size_A ob\<rparr>),
                     heap := (heap s)(next_addr s \<mapsto> sc),
                     next_addr := Suc (next_addr s),
                     avail := avail s - unat (size_A ob),
                     out := out s @ [''Copy constructor'']\<rparr>)"
      using A_copy_pos [OF wf ob pos, of c] by metis
    have unused: "heap s (next_addr s) = None"
      using wf_fresh [OF wf, of "next_addr s"] by (cases "heap s (next_addr s)") auto
    show ?thesis
      using ne ob a sc far unused
      by (auto simp add: res length_of_def elements_of_def storage_def store_elem_def
            split: if_splits)
  next
    case oom
    then show ?thesis
      by (simp add: A_copy_oom [OF ob])
  next
    case nonpos
    have "data ob = None"
      using wf_obj [OF wf ob] nonpos by (cases "data ob") (auto simp add: obj_inv_def)
    then show ?thesis
      using ne ob nonpos
      by (auto simp add: A_copy_nonpos [OF ob] length_of_def elements_of_def storage_def
            store_elem_def)
  qed
qed

theorem copy_ctor_deep_copy_witness:
  "wf_state one_buffer \<and> objs one_buffer 0 = Some \<lparr>data = Some 0, size_A = 3\<rparr> \<and>
   objs one_buffer 1 = None \<and>
   (0::int32) <s 3 \<and> unat (3::int32) \<le> avail one_buffer \<and>
   returned (A_copy 1 0 one_buffer) = Some () \<and>
   length_of (post (A_copy 1 0 one_buffer)) 1 = Some 3 \<and>
   elements_of (post (A_copy 1 0 one_buffer)) 1 = Some [Some 0, Some 0, Some 0] \<and>
   objs (post (A_copy 1 0 one_buffer)) 1 = Some \<lparr>data = Some 1, size_A = 3\<rparr> \<and>
   heap one_buffer 1 = None \<and>
   elements_of (the (store_elem 1 0 5 (post (A_copy 1 0 one_buffer)))) 1
     = Some [Some 5, Some 0, Some 0] \<and>
   elements_of (the (store_elem 1 0 5 (post (A_copy 1 0 one_buffer)))) 0
     = Some [Some 0, Some 0, Some 0]"
proof -
  define s' where "s' = post (A_copy 1 0 one_buffer)"
  define s'' where "s'' = the (store_elem 1 0 5 s')"
  have b: "objs one_buffer 0 = Some \<lparr>data = Some 0, size_A = 3\<rparr>"
    and c: "objs one_buffer 1 = None"
    and el: "elements_of one_buffer 0 = Some [Some 0, Some 0, Some 0]"
    and len: "length_of one_buffer 0 = Some 3"
    and mem: "(0::int32) <s 3" "unat (3::int32) \<le> avail one_buffer"
    by (simp_all add: one_buffer_eq elements_of_def storage_def length_of_def word_sless_alt)
  have run: "A_copy 1 0 one_buffer = Inr ((), s')"
    unfolding s'_def A_copy_one_buffer post_def by simp
  have oc: "objs s' 1 = Some \<lparr>data = Some 1, size_A = 3\<rparr>"
    unfolding s'_def A_copy_one_buffer post_def by simp
  have poke: "store_elem 1 0 5 s' = Some s''"
    unfolding s''_def s'_def A_copy_one_buffer post_def by (simp add: store_elem_def)
  have changed: "elements_of s'' 1 = Some [Some 5, Some 0, Some 0]"
    unfolding s''_def s'_def A_copy_one_buffer post_def
    by (simp add: store_elem_def elements_of_def storage_def)
  note fact = copy_ctor_deep_copy [OF wf_one_buffer b c]
  have "length_of s' 1 = length_of one_buffer 0"
    and "elements_of s' 1 = elements_of one_buffer 0"
    and "heap one_buffer 1 = None"
    and "elements_of s'' 0 = elements_of one_buffer 0"
    using fact run oc poke by simp_all
  then show ?thesis
    using wf_one_buffer b c mem run changed oc el len poke
    by (simp add: returned_def post_def)
qed

text \<open>
  Claim C7. Copy-assigning and move-assigning an instance to itself return the address of
  that instance and change nothing in the store but the trace on \<open>std::cout\<close>: no instance,
  no array and no amount of free store is different afterwards.
\<close>

theorem self_assignment_is_noop:
  "copy_assign b b s = Inr (b, s\<lparr>out := out s @ [''Copy assignment operator'']\<rparr>) \<and>
   move_assign b b s = Inr (b, s\<lparr>out := out s @ [''Move copy assignment operator'']\<rparr>)"
  by (simp add: copy_assign_def move_assign_def cout_def)

text \<open>
  Claim C8. On a live instance the conversion operator returns exactly the member \<open>size\<close>
  and changes nothing in the store but the trace on \<open>std::cout\<close>.
\<close>

theorem operator_int_returns_length:
  assumes "objs s b = Some obj"
  shows "operator_int b s =
         Inr (size_A obj, s\<lparr>out := out s @ [''Conversion operator (A to int)'']\<rparr>)"
  using assms by (simp add: operator_int_def cout_def)

theorem operator_int_returns_length_witness:
  "objs one_buffer 0 = Some \<lparr>data = Some 0, size_A = 3\<rparr> \<and>
   operator_int 0 one_buffer =
     Inr (3, one_buffer\<lparr>out := out one_buffer @ [''Conversion operator (A to int)'']\<rparr>)"
proof -
  have b: "objs one_buffer 0 = Some \<lparr>data = Some 0, size_A = 3\<rparr>"
    by (simp add: one_buffer_eq)
  show ?thesis
    using operator_int_returns_length [OF b] b by simp
qed

text \<open>
  Claim C9, as stated, fails twice. After \<open>A a(5); A b(2); b = a;\<close> with 8 cells of free
  store the copy assignment ends with \<open>std::bad_alloc\<close> and the destructor of \<open>b\<close> then
  deletes an array that is already released, which is undefined and no allocation failure;
  and \<open>A a(1e10)\<close> is undefined in the conversion to \<open>int\<close>, before anything is allocated.
\<close>

theorem failure_modes_counterexample:
  "wf_state (init_state 8) \<and> callable (IntCtor 0 5) (init_state 8) \<and>
   returned (A_int 0 5 (init_state 8)) = Some () \<and>
   callable (IntCtor 1 2) (post (A_int 0 5 (init_state 8))) \<and>
   returned (A_int 1 2 (post (A_int 0 5 (init_state 8)))) = Some () \<and>
   callable (CopyAssign 1 0) before_failed_assign \<and>
   exec (CopyAssign 1 0) before_failed_assign = Inl (OutOfMemory, after_failed_assign) \<and>
   callable (Dtor 1) after_failed_assign \<and> \<not> allocates (Dtor 1) \<and>
   exec (Dtor 1) after_failed_assign = Inl (Undefined, cout ''Destructor'' after_failed_assign) \<and>
   objs (init_state 8) 0 = None \<and>
   exec (DoubleCtor 0 10000000000) (init_state 8) = Inl (Undefined, init_state 8)"
proof -
  have pos: "(0::int32) <s 5" "(0::int32) <s 2"
    by (simp_all add: word_sless_alt)
  have first: "A_int 0 5 (init_state 8) =
      Inr ((), (init_state 8)\<lparr>objs := (objs (init_state 8))(0 \<mapsto> \<lparr>data = Some (next_addr (init_state 8)), size_A = 5\<rparr>),
                 heap := (heap (init_state 8))(next_addr (init_state 8) \<mapsto> replicate (unat (5::int32)) (Some 0)),
                 next_addr := Suc (next_addr (init_state 8)),
                 avail := avail (init_state 8) - unat (5::int32),
                 out := out (init_state 8) @ [''Parameterized constructor'']\<rparr>)"
    using pos(1) by (intro A_int_pos) (simp_all add: init_state_def)
  have c1: "callable (IntCtor 0 5) (init_state 8)" "objs (init_state 8) 0 = None"
    by (simp_all add: init_state_def)
  have r1: "returned (A_int 0 5 (init_state 8)) = Some ()"
    by (simp add: first returned_def)
  have c2: "callable (IntCtor 1 2) (post (A_int 0 5 (init_state 8)))"
    unfolding first post_def by (simp add: init_state_def)
  have "unat (2::int32) \<le> avail (post (A_int 0 5 (init_state 8)))"
    unfolding first post_def by (simp add: init_state_def)
  then have r2: "returned (A_int 1 2 (post (A_int 0 5 (init_state 8)))) = Some ()"
    using pos(2) by (simp add: A_int_pos returned_def)
  have c3: "callable (CopyAssign 1 0) before_failed_assign"
    by (simp add: before_failed_assign_eq)
  have f3: "exec (CopyAssign 1 0) before_failed_assign = Inl (OutOfMemory, after_failed_assign)"
    unfolding exec.simps copy_assign_fails after_failed_assign_eq by simp
  have c4: "callable (Dtor 1) after_failed_assign"
    by (simp add: after_failed_assign_eq)
  have f4: "exec (Dtor 1) after_failed_assign =
      Inl (Undefined, cout ''Destructor'' after_failed_assign)"
    by (simp add: A_dtor_def after_failed_assign_eq cout_def delete_array_def)
  have f5: "exec (DoubleCtor 0 10000000000) (init_state 8) = Inl (Undefined, init_state 8)"
    by (simp add: A_double_def static_cast_int_def truncate_d_def)
  show ?thesis
    using wf_init [of 8] c1 r1 c2 r2 c3 f3 c4 f4 f5 by simp
qed

text \<open>
  Claim C9, as amended. On a well-formed store, a call with a \<open>double\<close> argument only where
  its truncation is an \<open>int\<close> either returns, in a well-formed store, or is a call of the
  \<open>int\<close> constructor, the \<open>double\<close> constructor, the copy constructor or the copy
  assignment operator that ends with \<open>std::bad_alloc\<close>; the default constructor, the move
  constructor, the move assignment operator, the conversion operator and the destructor
  always return. When it is a constructor that ends with \<open>std::bad_alloc\<close>, the store is
  well-formed again; nothing is said of the store a failed copy assignment leaves.
\<close>

theorem only_allocation_can_fail:
  assumes "wf_state s" and "callable c s"
  shows "(\<exists>s'. exec c s = Inr s' \<and> wf_state s') \<or>
         (allocates c \<and>
          (\<exists>s'. exec c s = Inl (OutOfMemory, s') \<and>
                ((\<exists>this other. c = CopyAssign this other) \<or> wf_state s')))"
proof -
  consider (ret) s' where "exec c s = Inr s'" "wf_state s'"
    | (oom) s' where "allocates c" "exec c s = Inl (OutOfMemory, s')"
    using exec_outcome [OF assms] by blast
  then show ?thesis
  proof cases
    case ret
    then show ?thesis by blast
  next
    case oom
    show ?thesis
    proof (cases "\<exists>this other. c = CopyAssign this other")
      case True
      then show ?thesis using oom by blast
    next
      case False
      then have "wf_state s'"
        by (intro failed_ctor_wf [OF assms oom(2)]) blast
      then show ?thesis using oom by blast
    qed
  qed
qed

theorem only_allocation_can_fail_witness:
  "wf_state two_buffers \<and>
   callable (IntCtor 2 100) two_buffers \<and> allocates (IntCtor 2 100) \<and>
   exec (IntCtor 2 100) two_buffers =
     Inl (OutOfMemory, two_buffers\<lparr>out := out two_buffers @ [''Parameterized constructor'']\<rparr>) \<and>
   wf_state (two_buffers\<lparr>out := out two_buffers @ [''Parameterized constructor'']\<rparr>) \<and>
   callable (Dtor 0) two_buffers \<and> \<not> allocates (Dtor 0) \<and>
   exec (Dtor 0) two_buffers = Inr (post (A_dtor 0 two_buffers)) \<and>
   wf_state (post (A_dtor 0 two_buffers))"
proof -
  have ok1: "callable (IntCtor 2 100) two_buffers" and ok2: "callable (Dtor 0) two_buffers"
    by (simp_all add: two_buffers_eq)
  have "(0::int32) <s 100" and "\<not> unat (100::int32) \<le> avail two_buffers"
    by (simp_all add: word_sless_alt two_buffers_eq)
  then have oom: "exec (IntCtor 2 100) two_buffers =
     Inl (OutOfMemory, two_buffers\<lparr>out := out two_buffers @ [''Parameterized constructor'']\<rparr>)"
    by (simp add: A_int_oom) (simp add: two_buffers_eq)
  have "A_dtor 0 two_buffers =
      Inr ((), \<lparr>objs = [1 \<mapsto> \<lparr>data = None, size_A = 0\<rparr>], heap = Map.empty,
                 next_addr = 1, avail = 8,
                 out = [''Parameterized constructor'', ''Default constructor'', ''Destructor'']\<rparr>)"
    by (simp add: A_dtor_def cout_def delete_array_def two_buffers_eq)
  then have ret: "exec (Dtor 0) two_buffers = Inr (post (A_dtor 0 two_buffers))"
    by (simp add: post_def)
  show ?thesis
    using only_allocation_can_fail [OF wf_two_buffers ok1]
      only_allocation_can_fail [OF wf_two_buffers ok2] wf_two_buffers ok1 ok2 oom ret
    by simp
qed

text \<open>
  Claim C10. Move construction from a live \<open>b\<close> always returns and leaves \<open>b\<close> empty:
  no storage, length 0, no elements.
\<close>

theorem move_ctor_empties_source:
  assumes "objs s b = Some ob" and "objs s c = None"
  shows "\<exists>s'. A_move c b s = Inr ((), s') \<and>
              objs s' b = Some \<lparr>data = None, size_A = 0\<rparr> \<and>
              length_of s' b = Some 0 \<and> elements_of s' b = Some []"
proof -
  have "c \<noteq> b"
    using assms by auto
  then show ?thesis
    using assms
    by (simp add: A_move_def cout_def elements_of_def storage_def length_of_def A_overwrite)
qed

theorem move_ctor_empties_source_witness:
  "objs one_buffer 0 = Some \<lparr>data = Some 0, size_A = 3\<rparr> \<and> objs one_buffer 1 = None \<and>
   returned (A_move 1 0 one_buffer) = Some () \<and>
   objs (post (A_move 1 0 one_buffer)) 0 = Some \<lparr>data = None, size_A = 0\<rparr> \<and>
   length_of (post (A_move 1 0 one_buffer)) 0 = Some 0 \<and>
   elements_of (post (A_move 1 0 one_buffer)) 0 = Some []"
proof -
  have b: "objs one_buffer 0 = Some \<lparr>data = Some 0, size_A = 3\<rparr>"
    and c: "objs one_buffer 1 = None"
    by (simp_all add: one_buffer_eq)
  show ?thesis
    using move_ctor_empties_source [OF b c] b c
    by (auto simp add: post_def returned_def)
qed

end
